theory Spec2Isabelle
  imports Complex_Main
begin

section \<open>Special-key tokenizer (actions.py, config.py)\<close>

text \<open>
  \<^verbatim>\<open>TypeAction._parse_text_with_special_keys\<close> splits a text payload into
  \<^verbatim>\<open>("text", s)\<close> and \<^verbatim>\<open>("key", name)\<close> tuples. The registry is the
  dictionary \<^verbatim>\<open>SPECIAL_KEYS\<close> of config.py, kept as an association list in the
  order of the source. Strings are lists of \<^typ>\<open>char\<close>; \<^verbatim>\<open>str.lower\<close> is
  modelled on the ASCII letters (the registry is ASCII), other characters are left as
  they are.
\<close>

type_synonym part = "string \<times> string"

definition SPECIAL_KEYS :: "(string \<times> string) list" where
  "SPECIAL_KEYS =
    [(''<enter>'', ''enter''), (''<tab>'', ''tab''), (''<space>'', ''space''),
     (''<backspace>'', ''backspace''), (''<delete>'', ''delete''), (''<escape>'', ''escape''),
     (''<shift>'', ''shift''), (''<ctrl>'', ''ctrl''), (''<alt>'', ''alt''),
     (''<caps_lock>'', ''capslock''), (''<page_up>'', ''pageup''), (''<page_down>'', ''pagedown''),
     (''<home>'', ''home''), (''<end>'', ''end''), (''<insert>'', ''insert''),
     (''<up>'', ''up''), (''<down>'', ''down''), (''<left>'', ''left''), (''<right>'', ''right''),
     (''<f1>'', ''f1''), (''<f2>'', ''f2''), (''<f3>'', ''f3''), (''<f4>'', ''f4''),
     (''<f5>'', ''f5''), (''<f6>'', ''f6''), (''<f7>'', ''f7''), (''<f8>'', ''f8''),
     (''<f9>'', ''f9''), (''<f10>'', ''f10''), (''<f11>'', ''f11''), (''<f12>'', ''f12'')]"

text \<open>\<^verbatim>\<open>str.lower\<close>, \<^verbatim>\<open>str.find(c, start)\<close> (which answers -1 when there is no occurrence) and the slice \<^verbatim>\<open>text[i:j]\<close> for \<^verbatim>\<open>0 \<le> i\<close>.\<close>

definition lower_char :: "char \<Rightarrow> char" where
  "lower_char c =
     (case map_of (zip ''ABCDEFGHIJKLMNOPQRSTUVWXYZ'' ''abcdefghijklmnopqrstuvwxyz'') c of
        Some d \<Rightarrow> d
      | None \<Rightarrow> c)"

definition str_lower :: "string \<Rightarrow> string" where
  "str_lower s = map lower_char s"

fun index_of :: "char \<Rightarrow> string \<Rightarrow> nat option" where
  "index_of c [] = None"
| "index_of c (x # xs) = (if x = c then Some 0 else map_option Suc (index_of c xs))"

definition str_find :: "string \<Rightarrow> char \<Rightarrow> nat \<Rightarrow> int" where
  "str_find text c start =
     (case index_of c (drop start text) of None \<Rightarrow> - 1 | Some k \<Rightarrow> int (start + k))"

definition slice :: "string \<Rightarrow> nat \<Rightarrow> int \<Rightarrow> string" where
  "slice text i j = take (nat j - i) (drop i text)"

text \<open>\<^verbatim>\<open>str.find\<close> never answers an index before its start: the loop below advances.\<close>

lemma str_find_range: "str_find text c i \<noteq> - 1 \<Longrightarrow> int i \<le> str_find text c i"
  by (simp add: str_find_def split: option.splits)

text \<open>
  The \<^verbatim>\<open>while i < len(text)\<close> loop, with its three variables \<^verbatim>\<open>i\<close>,
  \<^verbatim>\<open>current_text\<close> and \<^verbatim>\<open>parts\<close>. The first branch is the \<^verbatim>\<open>continue\<close> of the
  source (a registered key was found); every other path falls through to
  \<^verbatim>\<open>current_text += text[i]; i += 1\<close>.
\<close>

function parse_loop :: "string \<Rightarrow> nat \<Rightarrow> string \<Rightarrow> part list \<Rightarrow> part list" where
  "parse_loop text i current_text parts =
     (if i < length text then
        (if text ! i = CHR ''<''
            \<and> str_find text CHR ''>'' i \<noteq> - 1
            \<and> map_of SPECIAL_KEYS (str_lower (slice text i (str_find text CHR ''>'' i + 1))) \<noteq> None
         then
           parse_loop text (nat (str_find text CHR ''>'' i + 1)) []
             ((if current_text \<noteq> [] then parts @ [(''text'', current_text)] else parts)
                @ [(''key'', the (map_of SPECIAL_KEYS
                      (str_lower (slice text i (str_find text CHR ''>'' i + 1)))))])
         else parse_loop text (i + 1) (current_text @ [text ! i]) parts)
      else (if current_text \<noteq> [] then parts @ [(''text'', current_text)] else parts))"
  by pat_completeness auto
termination
proof (relation "measure (\<lambda>(text, i, current_text, parts). length text - i)", goal_cases)
  case 1
  show ?case by simp
next
  case (2 s i current_text parts)
  then have "int i \<le> str_find s CHR ''>'' i" by (simp add: str_find_range)
  with 2 show ?case by simp
next
  case (3 s i current_text parts)
  then show ?case by simp
qed

definition parse_text_with_special_keys :: "string \<Rightarrow> part list" where
  "parse_text_with_special_keys text = parse_loop text 0 [] []"


text \<open>
  The tokenizer as the specification words it, on the part of the input still to be
  scanned: \<open>tokenize lit rest\<close> carries the literal text accumulated so far. On
  \<open><\<close> it looks for the next \<open>>\<close>; on a hit it flushes the literal text, emits the
  key and goes on after the \<open>>\<close>; on a miss the \<open><\<close> joins the literal text and the
  scan advances by one character.
\<close>

definition flush :: "string \<Rightarrow> part list" where
  "flush lit = (if lit \<noteq> [] then [(''text'', lit)] else [])"

function tokenize :: "string \<Rightarrow> string \<Rightarrow> part list" where
  "tokenize lit [] = flush lit"
| "tokenize lit (c # rest) =
     (if c = CHR ''<'' then
        (case index_of CHR ''>'' rest of
           None \<Rightarrow> tokenize (lit @ [c]) rest
         | Some k \<Rightarrow>
             (case map_of SPECIAL_KEYS (str_lower (c # take (Suc k) rest)) of
                None \<Rightarrow> tokenize (lit @ [c]) rest
              | Some key \<Rightarrow> flush lit @ [(''key'', key)] @ tokenize [] (drop (Suc k) rest)))
      else tokenize (lit @ [c]) rest)"
  by pat_completeness auto
termination
  by (relation "measure (\<lambda>(lit, rest). length rest)") auto


section \<open>Python values\<close>

text \<open>
  The values a JSON document or an action dictionary holds. A float is the rational it
  stands for, and numeric fields of the classes below are rationals: an \<^verbatim>\<open>int\<close> and
  the \<^verbatim>\<open>float\<close> of the same value are one value here (they compare equal in Python).
  A dictionary is an association list in insertion order, read with \<^const>\<open>map_of\<close>.
\<close>

datatype pyval =
    PNone
  | PBool bool
  | PInt int
  | PFloat rat
  | PStr string
  | PList "pyval list"
  | PDict "(string \<times> pyval) list"

type_synonym dict = "(string \<times> pyval) list"

datatype exn = ValueError | TypeError | KeyError | AttributeError | JSONDecodeError

text \<open>
  The result of a call that can raise. The classes of actions.py annotate their fields
  (\<^verbatim>\<open>text: str\<close>, \<^verbatim>\<open>x: int\<close>, \<^verbatim>\<open>keys: List[str]\<close>, ...) and the model keeps
  them at these types; \<open>IllTyped\<close> marks an input that would give a field a value of
  another type. What Python does then (it stores the value, or fails later) is outside
  the model.
\<close>

datatype 'a res = Returns 'a | Raises exn | IllTyped

fun and_then :: "'a res \<Rightarrow> ('a \<Rightarrow> 'b res) \<Rightarrow> 'b res" where
  "and_then (Returns x) f = f x"
| "and_then (Raises e) f = Raises e"
| "and_then IllTyped f = IllTyped"

text \<open>\<^verbatim>\<open>data.get(key, default)\<close>, and the reading of a value at a field's type.\<close>

definition dict_get :: "dict \<Rightarrow> string \<Rightarrow> pyval \<Rightarrow> pyval" where
  "dict_get data k dflt = (case map_of data k of Some v \<Rightarrow> v | None \<Rightarrow> dflt)"

fun as_num :: "pyval \<Rightarrow> rat res" where
  "as_num (PInt i) = Returns (of_int i)"
| "as_num (PFloat r) = Returns r"
| "as_num _ = IllTyped"

fun as_int :: "pyval \<Rightarrow> int res" where
  "as_int (PInt i) = Returns i"
| "as_int _ = IllTyped"

fun as_str :: "pyval \<Rightarrow> string res" where
  "as_str (PStr s) = Returns s"
| "as_str _ = IllTyped"

fun as_bool :: "pyval \<Rightarrow> bool res" where
  "as_bool (PBool b) = Returns b"
| "as_bool _ = IllTyped"

fun as_str_list_elems :: "pyval list \<Rightarrow> string list res" where
  "as_str_list_elems [] = Returns []"
| "as_str_list_elems (PStr s # vs) = and_then (as_str_list_elems vs) (\<lambda>ss. Returns (s # ss))"
| "as_str_list_elems (_ # vs) = IllTyped"

fun as_str_list :: "pyval \<Rightarrow> string list res" where
  "as_str_list (PList vs) = as_str_list_elems vs"
| "as_str_list _ = IllTyped"

section \<open>The action model (actions.py)\<close>

text \<open>
  One constructor per subclass of \<^verbatim>\<open>Action\<close>, holding the subclass's own attributes
  in the order of its \<^verbatim>\<open>__init__\<close>; the record holds the attributes of the base class.
  \<^verbatim>\<open>id\<close> is opaque (\<^verbatim>\<open>None\<close> until somebody assigns it), so it stays a
  \<^typ>\<open>pyval\<close>.
\<close>

datatype variant =
    TypeAction string
  | ClickAction int int string
  | DelayAction rat
  | HotkeyAction "string list"
  | SpecialKeyAction string
  | ScrollAction int int int string
  | DragAction int int int int rat string

record action =
  delay :: rat
  ident :: pyval
  name :: string
  description :: string
  enabled :: bool
  created_at :: rat
  variant :: variant

fun class_name :: "variant \<Rightarrow> string" where
  "class_name (TypeAction text) = ''TypeAction''"
| "class_name (ClickAction x y button) = ''ClickAction''"
| "class_name (DelayAction wait_time) = ''DelayAction''"
| "class_name (HotkeyAction keys) = ''HotkeyAction''"
| "class_name (SpecialKeyAction key) = ''SpecialKeyAction''"
| "class_name (ScrollAction x y clicks direction) = ''ScrollAction''"
| "class_name (DragAction start_x start_y end_x end_y duration button) = ''DragAction''"

text \<open>
  \<^verbatim>\<open>str.title\<close> on ASCII text, and \<^verbatim>\<open>sep.join\<close>. How Python prints a number in
  an f-string is a built-in of the interpreter: it is the parameter \<open>fmt\<close> of every
  function that builds a description.
\<close>

definition upper_char :: "char \<Rightarrow> char" where
  "upper_char c =
     (case map_of (zip ''abcdefghijklmnopqrstuvwxyz'' ''ABCDEFGHIJKLMNOPQRSTUVWXYZ'') c of
        Some d \<Rightarrow> d
      | None \<Rightarrow> c)"

definition is_alpha :: "char \<Rightarrow> bool" where
  "is_alpha c \<longleftrightarrow> c \<in> set ''abcdefghijklmnopqrstuvwxyzABCDEFGHIJKLMNOPQRSTUVWXYZ''"

fun title_from :: "bool \<Rightarrow> string \<Rightarrow> string" where
  "title_from in_word [] = []"
| "title_from in_word (c # cs) =
     (if is_alpha c then (if in_word then lower_char c else upper_char c) # title_from True cs
      else c # title_from False cs)"

definition str_title :: "string \<Rightarrow> string" where
  "str_title s = title_from False s"

fun str_join :: "string \<Rightarrow> string list \<Rightarrow> string" where
  "str_join sep [] = []"
| "str_join sep [s] = s"
| "str_join sep (s # t # ss) = s @ sep @ str_join sep (t # ss)"

text \<open>
  The description every \<^verbatim>\<open>__init__\<close> computes from its arguments and every
  \<^verbatim>\<open>from_dict\<close> computes again from the loaded attributes: the source writes the same
  f-string in both places, once on the arguments and once on \<^verbatim>\<open>self\<close>.
\<close>

fun describe :: "(pyval \<Rightarrow> string) \<Rightarrow> variant \<Rightarrow> string" where
  "describe fmt (TypeAction text) =
     ''Type: '' @ take 50 text @ (if length text > 50 then ''...'' else '''')"
| "describe fmt (ClickAction x y button) =
     ''Click '' @ button @ '' at ('' @ fmt (PInt x) @ '', '' @ fmt (PInt y) @ '')''"
| "describe fmt (DelayAction wait_time) =
     ''Wait for '' @ fmt (PFloat wait_time) @ '' seconds''"
| "describe fmt (HotkeyAction keys) = ''Press '' @ str_join ''+'' keys"
| "describe fmt (SpecialKeyAction key) = ''Press '' @ key @ '' key''"
| "describe fmt (ScrollAction x y clicks direction) =
     ''Scroll '' @ direction @ '' '' @ fmt (PInt clicks) @ '' clicks at (''
       @ fmt (PInt x) @ '', '' @ fmt (PInt y) @ '')''"
| "describe fmt (DragAction start_x start_y end_x end_y duration button) =
     ''Drag from ('' @ fmt (PInt start_x) @ '', '' @ fmt (PInt start_y) @ '') to (''
       @ fmt (PInt end_x) @ '', '' @ fmt (PInt end_y) @ '')''"

subsection \<open>Constructors\<close>

text \<open>
  \<^verbatim>\<open>Action.__init__(delay)\<close>; \<open>now\<close> is what \<^verbatim>\<open>time.time()\<close> answers at the call.
\<close>

definition Action_init :: "rat \<Rightarrow> rat \<Rightarrow> variant \<Rightarrow> action" where
  "Action_init now d v =
     \<lparr>delay = d, ident = PNone, name = '''', description = '''', enabled = True,
      created_at = now, variant = v\<rparr>"

definition TypeAction_init :: "(pyval \<Rightarrow> string) \<Rightarrow> rat \<Rightarrow> string \<Rightarrow> rat \<Rightarrow> action" where
  "TypeAction_init fmt now text d =
     (Action_init now d (TypeAction text))
       \<lparr>name := ''Type Text'', description := describe fmt (TypeAction text)\<rparr>"

definition ClickAction_init ::
  "(pyval \<Rightarrow> string) \<Rightarrow> rat \<Rightarrow> int \<Rightarrow> int \<Rightarrow> string \<Rightarrow> rat \<Rightarrow> action" where
  "ClickAction_init fmt now x y button d =
     (Action_init now d (ClickAction x y button))
       \<lparr>name := str_title button @ '' Click'',
        description := describe fmt (ClickAction x y button)\<rparr>"

text \<open>\<^verbatim>\<open>super().__init__(0)  # DelayAction doesn't use the base delay\<close>\<close>

definition DelayAction_init :: "(pyval \<Rightarrow> string) \<Rightarrow> rat \<Rightarrow> rat \<Rightarrow> action" where
  "DelayAction_init fmt now wait_time =
     (Action_init now 0 (DelayAction wait_time))
       \<lparr>name := ''Delay'', description := describe fmt (DelayAction wait_time)\<rparr>"

definition HotkeyAction_init ::
  "(pyval \<Rightarrow> string) \<Rightarrow> rat \<Rightarrow> string list \<Rightarrow> rat \<Rightarrow> action" where
  "HotkeyAction_init fmt now keys d =
     (Action_init now d (HotkeyAction keys))
       \<lparr>name := ''Hotkey'', description := describe fmt (HotkeyAction keys)\<rparr>"

definition SpecialKeyAction_init ::
  "(pyval \<Rightarrow> string) \<Rightarrow> rat \<Rightarrow> string \<Rightarrow> rat \<Rightarrow> action" where
  "SpecialKeyAction_init fmt now key d =
     (Action_init now d (SpecialKeyAction key))
       \<lparr>name := ''Special Key'', description := describe fmt (SpecialKeyAction key)\<rparr>"

definition ScrollAction_init ::
  "(pyval \<Rightarrow> string) \<Rightarrow> rat \<Rightarrow> int \<Rightarrow> int \<Rightarrow> int \<Rightarrow> string \<Rightarrow> rat \<Rightarrow> action" where
  "ScrollAction_init fmt now x y clicks direction d =
     (Action_init now d (ScrollAction x y clicks direction))
       \<lparr>name := ''Scroll '' @ str_title direction,
        description := describe fmt (ScrollAction x y clicks direction)\<rparr>"

definition DragAction_init ::
  "(pyval \<Rightarrow> string) \<Rightarrow> rat \<Rightarrow> int \<Rightarrow> int \<Rightarrow> int \<Rightarrow> int \<Rightarrow> rat \<Rightarrow> string \<Rightarrow> rat \<Rightarrow> action"
  where
  "DragAction_init fmt now start_x start_y end_x end_y duration button d =
     (Action_init now d (DragAction start_x start_y end_x end_y duration button))
       \<lparr>name := ''Drag '' @ str_title button,
        description := describe fmt (DragAction start_x start_y end_x end_y duration button)\<rparr>"

subsection \<open>Serialization\<close>

text \<open>
  \<^verbatim>\<open>Action.to_dict\<close>, extended by each subclass with its own keys
  (\<^verbatim>\<open>data["text"] = ...\<close>, \<^verbatim>\<open>data.update({...})\<close>: the keys are new, so they are
  appended).
\<close>

definition Action_to_dict :: "action \<Rightarrow> dict" where
  "Action_to_dict a =
     [(''type'', PStr (class_name (variant a))),
      (''delay'', PFloat (delay a)),
      (''id'', ident a),
      (''name'', PStr (name a)),
      (''description'', PStr (description a)),
      (''enabled'', PBool (enabled a)),
      (''created_at'', PFloat (created_at a))]"

fun variant_to_dict :: "variant \<Rightarrow> dict" where
  "variant_to_dict (TypeAction text) = [(''text'', PStr text)]"
| "variant_to_dict (ClickAction x y button) =
     [(''x'', PInt x), (''y'', PInt y), (''button'', PStr button)]"
| "variant_to_dict (DelayAction wait_time) = [(''wait_time'', PFloat wait_time)]"
| "variant_to_dict (HotkeyAction keys) = [(''keys'', PList (map PStr keys))]"
| "variant_to_dict (SpecialKeyAction key) = [(''key'', PStr key)]"
| "variant_to_dict (ScrollAction x y clicks direction) =
     [(''x'', PInt x), (''y'', PInt y), (''clicks'', PInt clicks), (''direction'', PStr direction)]"
| "variant_to_dict (DragAction start_x start_y end_x end_y duration button) =
     [(''start_x'', PInt start_x), (''start_y'', PInt start_y), (''end_x'', PInt end_x),
      (''end_y'', PInt end_y), (''duration'', PFloat duration), (''button'', PStr button)]"

definition to_dict :: "action \<Rightarrow> dict" where
  "to_dict a = Action_to_dict a @ variant_to_dict (variant a)"

text \<open>
  \<^verbatim>\<open>Action.from_dict\<close> on the common attributes; \<open>now\<close> is the \<^verbatim>\<open>time.time()\<close> of
  the default of \<^verbatim>\<open>created_at\<close>.
\<close>

definition Action_from_dict :: "rat \<Rightarrow> dict \<Rightarrow> action \<Rightarrow> action res" where
  "Action_from_dict now data a =
     and_then (as_num (dict_get data ''delay'' (PInt 0))) (\<lambda>d.
     and_then (as_str (dict_get data ''name'' (PStr ''''))) (\<lambda>n.
     and_then (as_str (dict_get data ''description'' (PStr ''''))) (\<lambda>ds.
     and_then (as_bool (dict_get data ''enabled'' (PBool True))) (\<lambda>en.
     and_then (as_num (dict_get data ''created_at'' (PFloat now))) (\<lambda>c.
       Returns (a\<lparr>delay := d, ident := dict_get data ''id'' PNone, name := n,
                  description := ds, enabled := en, created_at := c\<rparr>))))))"

text \<open>
  The attributes each subclass's \<^verbatim>\<open>from_dict\<close> loads after the call of
  \<^verbatim>\<open>super().from_dict(data)\<close>, chosen by the class of \<^verbatim>\<open>self\<close>.
\<close>

fun variant_from_dict :: "dict \<Rightarrow> variant \<Rightarrow> variant res" where
  "variant_from_dict data (TypeAction text0) =
     and_then (as_str (dict_get data ''text'' (PStr ''''))) (\<lambda>text. Returns (TypeAction text))"
| "variant_from_dict data (ClickAction x0 y0 button0) =
     and_then (as_int (dict_get data ''x'' (PInt 0))) (\<lambda>x.
     and_then (as_int (dict_get data ''y'' (PInt 0))) (\<lambda>y.
     and_then (as_str (dict_get data ''button'' (PStr ''left''))) (\<lambda>button.
       Returns (ClickAction x y button))))"
| "variant_from_dict data (DelayAction wait_time0) =
     and_then (as_num (dict_get data ''wait_time'' (PFloat 1))) (\<lambda>wait_time.
       Returns (DelayAction wait_time))"
| "variant_from_dict data (HotkeyAction keys0) =
     and_then (as_str_list (dict_get data ''keys'' (PList []))) (\<lambda>keys.
       Returns (HotkeyAction keys))"
| "variant_from_dict data (SpecialKeyAction key0) =
     and_then (as_str (dict_get data ''key'' (PStr ''enter''))) (\<lambda>key.
       Returns (SpecialKeyAction key))"
| "variant_from_dict data (ScrollAction x0 y0 clicks0 direction0) =
     and_then (as_int (dict_get data ''x'' (PInt 0))) (\<lambda>x.
     and_then (as_int (dict_get data ''y'' (PInt 0))) (\<lambda>y.
     and_then (as_int (dict_get data ''clicks'' (PInt 3))) (\<lambda>clicks.
     and_then (as_str (dict_get data ''direction'' (PStr ''up''))) (\<lambda>direction.
       Returns (ScrollAction x y clicks direction)))))"
| "variant_from_dict data (DragAction sx0 sy0 ex0 ey0 duration0 button0) =
     and_then (as_int (dict_get data ''start_x'' (PInt 0))) (\<lambda>start_x.
     and_then (as_int (dict_get data ''start_y'' (PInt 0))) (\<lambda>start_y.
     and_then (as_int (dict_get data ''end_x'' (PInt 0))) (\<lambda>end_x.
     and_then (as_int (dict_get data ''end_y'' (PInt 0))) (\<lambda>end_y.
     and_then (as_num (dict_get data ''duration'' (PFloat 1))) (\<lambda>duration.
     and_then (as_str (dict_get data ''button'' (PStr ''left''))) (\<lambda>button.
       Returns (DragAction start_x start_y end_x end_y duration button)))))))"

text \<open>
  \<^verbatim>\<open>from_dict\<close> of a subclass: the base class's attributes, then its own, then
  \<^verbatim>\<open>self.description = f"..."\<close>, which replaces the description just loaded.
\<close>

definition from_dict :: "(pyval \<Rightarrow> string) \<Rightarrow> rat \<Rightarrow> dict \<Rightarrow> action \<Rightarrow> action res" where
  "from_dict fmt now data a =
     and_then (Action_from_dict now data a) (\<lambda>a1.
     and_then (variant_from_dict data (variant a1)) (\<lambda>v.
       Returns (a1\<lparr>variant := v, description := describe fmt v\<rparr>)))"

text \<open>
  \<^verbatim>\<open>Action.create_from_dict\<close>: the constructor chosen by \<^verbatim>\<open>data.get("type")\<close>
  and called with the defaults of the source, then \<^verbatim>\<open>action.from_dict(data)\<close>.
  \<open>t0\<close> and \<open>t1\<close> are the two readings of \<^verbatim>\<open>time.time()\<close>, in the constructor
  and in \<^verbatim>\<open>from_dict\<close>. An unknown type raises \<^verbatim>\<open>ValueError\<close>.
\<close>

definition construct :: "(pyval \<Rightarrow> string) \<Rightarrow> rat \<Rightarrow> dict \<Rightarrow> action res" where
  "construct fmt t0 data =
     (let action_type = dict_get data ''type'' PNone in
      if action_type = PStr ''TypeAction'' then
        and_then (as_str (dict_get data ''text'' (PStr ''''))) (\<lambda>text.
          Returns (TypeAction_init fmt t0 text 0))
      else if action_type = PStr ''ClickAction'' then
        and_then (as_int (dict_get data ''x'' (PInt 0))) (\<lambda>x.
        and_then (as_int (dict_get data ''y'' (PInt 0))) (\<lambda>y.
        and_then (as_str (dict_get data ''button'' (PStr ''left''))) (\<lambda>button.
          Returns (ClickAction_init fmt t0 x y button 0))))
      else if action_type = PStr ''DelayAction'' then
        and_then (as_num (dict_get data ''wait_time'' (PFloat 1))) (\<lambda>wait_time.
          Returns (DelayAction_init fmt t0 wait_time))
      else if action_type = PStr ''HotkeyAction'' then
        and_then (as_str_list (dict_get data ''keys'' (PList []))) (\<lambda>keys.
          Returns (HotkeyAction_init fmt t0 keys 0))
      else if action_type = PStr ''SpecialKeyAction'' then
        and_then (as_str (dict_get data ''key'' (PStr ''enter''))) (\<lambda>key.
          Returns (SpecialKeyAction_init fmt t0 key 0))
      else if action_type = PStr ''ScrollAction'' then
        and_then (as_int (dict_get data ''x'' (PInt 0))) (\<lambda>x.
        and_then (as_int (dict_get data ''y'' (PInt 0))) (\<lambda>y.
        and_then (as_int (dict_get data ''clicks'' (PInt 3))) (\<lambda>clicks.
        and_then (as_str (dict_get data ''direction'' (PStr ''up''))) (\<lambda>direction.
          Returns (ScrollAction_init fmt t0 x y clicks direction 0)))))
      else if action_type = PStr ''DragAction'' then
        and_then (as_int (dict_get data ''start_x'' (PInt 0))) (\<lambda>start_x.
        and_then (as_int (dict_get data ''start_y'' (PInt 0))) (\<lambda>start_y.
        and_then (as_int (dict_get data ''end_x'' (PInt 0))) (\<lambda>end_x.
        and_then (as_int (dict_get data ''end_y'' (PInt 0))) (\<lambda>end_y.
        and_then (as_num (dict_get data ''duration'' (PFloat 1))) (\<lambda>duration.
          Returns (DragAction_init fmt t0 start_x start_y end_x end_y duration ''left'' 0))))))
      else Raises ValueError)"

definition create_from_dict :: "(pyval \<Rightarrow> string) \<Rightarrow> rat \<Rightarrow> rat \<Rightarrow> dict \<Rightarrow> action res" where
  "create_from_dict fmt t0 t1 data =
     and_then (construct fmt t0 data) (\<lambda>action. from_dict fmt t1 data action)"

definition clone :: "(pyval \<Rightarrow> string) \<Rightarrow> rat \<Rightarrow> rat \<Rightarrow> action \<Rightarrow> action res" where
  "clone fmt t0 t1 a = create_from_dict fmt t0 t1 (to_dict a)"

section \<open>Executing an action\<close>

text \<open>
  The input device (pyautogui) and the clock are outside the repository. A run is
  observed through the list of events it appends to the history: the sleeps, the device
  calls that went through, the device call that raised, the polls of the stop predicate,
  the calls of the progress callback and, for every call of \<^verbatim>\<open>action.execute()\<close>
  by the sequence, its position and its outcome.
\<close>

datatype device_op =
    Typewrite string
  | Press string
  | Click int int string
  | Hotkey "string list"
  | MoveTo int int
  | Scroll int int int
  | Drag int int rat string

text \<open>What a call of \<^verbatim>\<open>Action.execute\<close> gives its caller: a boolean, or \<^verbatim>\<open>ActionError\<close>.\<close>

datatype outcome = Returned bool | ActionError

datatype event =
    Sleep rat
  | Performed device_op
  | Refused device_op
  | StopCheck bool
  | Progress nat int int nat "action option"
  | Executed nat nat outcome

text \<open>
  The environment of a run: \<open>device_raises h op\<close> says whether the device raises on
  \<open>op\<close> after the history \<open>h\<close>; \<open>stop_check\<close> is the optional stop predicate,
  answering from the history; \<open>progress_callback\<close> says whether a callback was passed
  (it only observes).
\<close>

record env =
  device_raises :: "event list \<Rightarrow> device_op \<Rightarrow> bool"
  stop_check :: "(event list \<Rightarrow> bool) option"
  progress_callback :: bool

text \<open>
  \<^verbatim>\<open>time.sleep(secs)\<close> raises \<^verbatim>\<open>ValueError\<close> on a negative length. A device call
  either goes through or raises; both leave an event.
\<close>

definition time_sleep :: "rat \<Rightarrow> event list \<Rightarrow> bool \<times> event list" where
  "time_sleep secs h = (if secs < 0 then (False, h) else (True, h @ [Sleep secs]))"

definition device :: "env \<Rightarrow> device_op \<Rightarrow> event list \<Rightarrow> bool \<times> event list" where
  "device e op h =
     (if device_raises e h op then (False, h @ [Refused op]) else (True, h @ [Performed op]))"

text \<open>
  The loop of \<^verbatim>\<open>TypeAction._execute_impl\<close> over the parts of the tokenizer:
  \<^verbatim>\<open>typewrite\<close> for a text part, \<^verbatim>\<open>press\<close> for a key. The first component of
  every result below is \<open>True\<close> when the code ran to its end and \<open>False\<close> when an
  exception left it.
\<close>

fun type_parts :: "env \<Rightarrow> part list \<Rightarrow> event list \<Rightarrow> bool \<times> event list" where
  "type_parts e [] h = (True, h)"
| "type_parts e ((part_type, part_value) # parts) h =
     (case device e (if part_type = ''text'' then Typewrite part_value else Press part_value) h of
        (True, h1) \<Rightarrow> type_parts e parts h1
      | (False, h1) \<Rightarrow> (False, h1))"

text \<open>\<^verbatim>\<open>_execute_impl\<close> of the seven subclasses; each returns \<^verbatim>\<open>True\<close> or raises.\<close>

fun execute_impl :: "env \<Rightarrow> variant \<Rightarrow> event list \<Rightarrow> bool \<times> event list" where
  "execute_impl e (TypeAction text) h =
     (if text = [] then (True, h) else type_parts e (parse_text_with_special_keys text) h)"
| "execute_impl e (ClickAction x y button) h = device e (Click x y button) h"
| "execute_impl e (DelayAction wait_time) h = time_sleep wait_time h"
| "execute_impl e (HotkeyAction keys) h = device e (Hotkey keys) h"
| "execute_impl e (SpecialKeyAction key) h = device e (Press key) h"
| "execute_impl e (ScrollAction x y clicks direction) h =
     (case device e (MoveTo x y) h of
        (True, h1) \<Rightarrow>
          device e (Scroll (if direction = ''up'' then clicks else - clicks) x y) h1
      | (False, h1) \<Rightarrow> (False, h1))"
| "execute_impl e (DragAction start_x start_y end_x end_y duration button) h =
     device e (Drag (end_x - start_x) (end_y - start_y) duration button) h"

text \<open>
  \<^verbatim>\<open>Action.execute\<close>: a disabled action returns \<^verbatim>\<open>True\<close> at once; otherwise the
  action sleeps for \<^verbatim>\<open>delay\<close> when it is positive and runs \<^verbatim>\<open>_execute_impl\<close>.
  Every exception is caught and raised again as \<^verbatim>\<open>ActionError\<close>.
\<close>

definition execute_action :: "env \<Rightarrow> action \<Rightarrow> event list \<Rightarrow> outcome \<times> event list" where
  "execute_action e a h =
     (if \<not> enabled a then (Returned True, h)
      else
        (case (if delay a > 0 then time_sleep (delay a) h else (True, h)) of
           (False, h1) \<Rightarrow> (ActionError, h1)
         | (True, h1) \<Rightarrow>
             (case execute_impl e (variant a) h1 of
                (True, h2) \<Rightarrow> (Returned True, h2)
              | (False, h2) \<Rightarrow> (ActionError, h2))))"

section \<open>The sequence engine (actions.py, class ActionSequence)\<close>

record action_sequence =
  seq_name :: string
  actions :: "action list"
  loop_enabled :: bool
  loop_count :: int
  repeat_interval :: rat
  stop_on_error :: bool
  is_running :: bool
  current_action_index :: nat
  current_loop :: int

text \<open>\<^verbatim>\<open>stop_check and stop_check()\<close>: the predicate is polled only when one was passed.\<close>

definition poll_stop :: "env \<Rightarrow> event list \<Rightarrow> bool \<times> event list" where
  "poll_stop e h =
     (case stop_check e of
        None \<Rightarrow> (False, h)
      | Some stop \<Rightarrow> (stop h, h @ [StopCheck (stop h)]))"

text \<open>\<^verbatim>\<open>if progress_callback: progress_callback(...)\<close>\<close>

definition report :: "env \<Rightarrow> event \<Rightarrow> event list \<Rightarrow> event list" where
  "report e ev h = (if progress_callback e then h @ [ev] else h)"

text \<open>
  How the inner \<^verbatim>\<open>for\<close> loop ends: it ran through the list, it hit \<^verbatim>\<open>break\<close>, or
  it left \<^verbatim>\<open>execute\<close> by \<^verbatim>\<open>return False\<close>.
\<close>

datatype flow = Completed | Stopped | Aborted

text \<open>
  The inner loop \<^verbatim>\<open>for action_index, action in enumerate(self.actions)\<close>, from the
  index \<open>action_index\<close> on. \<open>n\<close> is the local \<^verbatim>\<open>loop_count\<close>.
\<close>

fun run_actions ::
  "env \<Rightarrow> nat \<Rightarrow> int \<Rightarrow> nat \<Rightarrow> action list \<Rightarrow> action_sequence \<Rightarrow> event list
     \<Rightarrow> flow \<times> action_sequence \<times> event list" where
  "run_actions e loop_index n action_index [] s h = (Completed, s, h)"
| "run_actions e loop_index n action_index (a # rest) s h =
     (let s1 = s\<lparr>current_action_index := action_index\<rparr> in
      case poll_stop e h of
        (True, h1) \<Rightarrow> (Stopped, s1, h1)
      | (False, h1) \<Rightarrow>
          (case execute_action e a
                  (report e (Progress loop_index n (int action_index) (length (actions s)) (Some a)) h1) of
             (out, h2) \<Rightarrow>
               if out \<noteq> Returned True \<and> stop_on_error s1
               then (Aborted, s1, h2 @ [Executed loop_index action_index out])
               else run_actions e loop_index n (Suc action_index) rest s1
                      (h2 @ [Executed loop_index action_index out])))"

text \<open>
  The pause between two loops: the marker call of the callback with
  \<^verbatim>\<open>action_index = -1\<close> and no action, then \<^verbatim>\<open>time.sleep(self.repeat_interval)\<close>.
\<close>

definition between_loops :: "env \<Rightarrow> nat \<Rightarrow> int \<Rightarrow> action_sequence \<Rightarrow> event list \<Rightarrow> event list"
  where
  "between_loops e loop_index n s h =
     (if loop_enabled s \<and> int loop_index < n - 1 \<and> repeat_interval s > 0
      then report e (Progress loop_index n (- 1) (length (actions s)) None) h
             @ [Sleep (repeat_interval s)]
      else h)"

text \<open>
  The outer loop \<^verbatim>\<open>for loop_index in range(loop_count)\<close> over the indices still to
  run. The result is the value \<^verbatim>\<open>execute\<close> returns.
\<close>

fun run_loops ::
  "env \<Rightarrow> int \<Rightarrow> nat list \<Rightarrow> action_sequence \<Rightarrow> event list
     \<Rightarrow> bool \<times> action_sequence \<times> event list" where
  "run_loops e n [] s h = (True, s, h)"
| "run_loops e n (loop_index # later) s h =
     (let s1 = s\<lparr>current_loop := int loop_index + 1\<rparr> in
      case poll_stop e h of
        (True, h1) \<Rightarrow> (True, s1, h1)
      | (False, h1) \<Rightarrow>
          (case run_actions e loop_index n 0 (actions s1) s1 h1 of
             (Aborted, s2, h2) \<Rightarrow> (False, s2, h2)
           | (fl, s2, h2) \<Rightarrow> run_loops e n later s2 (between_loops e loop_index n s2 h2)))"

text \<open>
  \<^verbatim>\<open>ActionSequence.execute\<close>. The \<^verbatim>\<open>finally\<close> block runs on every way out of the
  \<^verbatim>\<open>try\<close> block.
\<close>

definition finally_block :: "action_sequence \<Rightarrow> action_sequence" where
  "finally_block s = s\<lparr>is_running := False, current_action_index := 0, current_loop := 0\<rparr>"

definition execute :: "env \<Rightarrow> action_sequence \<Rightarrow> event list \<Rightarrow> bool \<times> action_sequence \<times> event list"
  where
  "execute e s h =
     (let s1 = s\<lparr>is_running := True\<rparr>;
          n = (if loop_enabled s1 then loop_count s1 else 1)
      in case run_loops e n [0..<nat n] s1 h of
           (result, s2, h') \<Rightarrow> (result, finally_block s2, h'))"

text \<open>What a history shows of the engine: the executions, and the inter-loop markers.\<close>

fun executions :: "event list \<Rightarrow> (nat \<times> nat \<times> outcome) list" where
  "executions [] = []"
| "executions (Executed l i out # h) = (l, i, out) # executions h"
| "executions (ev # h) = executions h"

fun markers :: "event list \<Rightarrow> (nat \<times> int \<times> nat) list" where
  "markers [] = []"
| "markers (Progress l n i tot a # h) =
     (if i = - 1 \<and> a = None then (l, n, tot) # markers h else markers h)"
| "markers (ev # h) = markers h"


text \<open>
  The engine's own steps in a history, in order: an execution of the action at an index
  of a loop, or the inter-loop marker of a loop.
\<close>

datatype step = Ran nat nat | Paused nat

fun steps :: "event list \<Rightarrow> step list" where
  "steps [] = []"
| "steps (Executed l i out # h) = Ran l i # steps h"
| "steps (Progress l n i tot a # h) =
     (if i = - 1 \<and> a = None then Paused l # steps h else steps h)"
| "steps (ev # h) = steps h"

text \<open>No stop is ever requested: no predicate was passed, or it never answers true.\<close>

definition never_stops :: "env \<Rightarrow> bool" where
  "never_stops e = (case stop_check e of None \<Rightarrow> True | Some stop \<Rightarrow> \<forall>h. \<not> stop h)"

text \<open>Notions of the proofs: executions that all succeeded, events that are none of the
  engine's steps, and the condition of the pause between loops.\<close>

definition all_succeeded :: "(nat \<times> nat \<times> outcome) list \<Rightarrow> bool" where
  "all_succeeded xs = list_all (\<lambda>(l, i, out). out = Returned True) xs"

definition silent :: "event list \<Rightarrow> bool" where
  "silent d \<longleftrightarrow> executions d = [] \<and> markers d = [] \<and> steps d = []"

definition pause_due :: "action_sequence \<Rightarrow> int \<Rightarrow> nat \<Rightarrow> bool" where
  "pause_due s n l \<longleftrightarrow> loop_enabled s \<and> int l < n - 1 \<and> repeat_interval s > 0"

section \<open>The generative response parser (api_integration.py)\<close>

text \<open>
  \<^verbatim>\<open>json.loads\<close>, \<^verbatim>\<open>int\<close> and \<^verbatim>\<open>float\<close> belong to Python, not to the repository:
  they are parameters. \<open>None\<close> stands for the exception each of them raises on text it
  cannot read (\<^verbatim>\<open>JSONDecodeError\<close>, \<^verbatim>\<open>ValueError\<close>).
\<close>

record python =
  json_loads :: "string \<Rightarrow> pyval option"
  py_int :: "string \<Rightarrow> int option"
  py_float :: "string \<Rightarrow> rat option"

text \<open>
  The string methods the parser uses, on ASCII text: \<^verbatim>\<open>rfind\<close>, \<^verbatim>\<open>upper\<close>,
  \<^verbatim>\<open>strip\<close>, \<^verbatim>\<open>split\<close> on one character, and \<^verbatim>\<open>text[i:]\<close>, \<^verbatim>\<open>startswith\<close>.
\<close>

definition str_rfind :: "string \<Rightarrow> char \<Rightarrow> int" where
  "str_rfind text c =
     (case index_of c (rev text) of
        None \<Rightarrow> - 1
      | Some k \<Rightarrow> int (length text) - 1 - int k)"

definition str_upper :: "string \<Rightarrow> string" where
  "str_upper s = map upper_char s"

definition is_space :: "char \<Rightarrow> bool" where
  "is_space c \<longleftrightarrow>
     c \<in> set [CHR 0x09, CHR 0x0A, CHR 0x0B, CHR 0x0C, CHR 0x0D,
               CHR 0x1C, CHR 0x1D, CHR 0x1E, CHR 0x1F, CHR 0x20]"

definition str_strip :: "string \<Rightarrow> string" where
  "str_strip s = rev (dropWhile is_space (rev (dropWhile is_space s)))"

fun split_on :: "char \<Rightarrow> string \<Rightarrow> string list" where
  "split_on c [] = [[]]"
| "split_on c (x # xs) =
     (if x = c then [] # split_on c xs
      else (case split_on c xs of
              [] \<Rightarrow> [[x]]
            | w # ws \<Rightarrow> (x # w) # ws))"

definition startswith :: "string \<Rightarrow> string \<Rightarrow> bool" where
  "startswith s prefix \<longleftrightarrow> take (length prefix) s = prefix"

text \<open>
  \<^verbatim>\<open>GeminiProvider._parse_text_response\<close>, the fallback: one line at a time. A line
  gives one action or none; \<open>now\<close> is the clock when the action is built.
\<close>

definition parse_line :: "python \<Rightarrow> (pyval \<Rightarrow> string) \<Rightarrow> rat \<Rightarrow> string \<Rightarrow> action list" where
  "parse_line py fmt now raw_line =
     (let line = str_strip raw_line in
      if line = [] then []
      else if startswith (str_lower line) ''type:'' then
        [TypeAction_init fmt now (str_strip (drop 5 line)) (1 / 2)]
      else if startswith (str_lower line) ''click:'' then
        (let coords = str_strip (drop 6 line) in
         if CHR '','' \<in> set coords then
           (case map (py_int py) (split_on CHR '','' coords) of
              [Some x, Some y] \<Rightarrow> [ClickAction_init fmt now x y ''left'' (1 / 5)]
            | _ \<Rightarrow> [])
         else [])
      else if startswith (str_lower line) ''wait:'' then
        (case py_float py (str_strip (drop 5 line)) of
           Some wait_time \<Rightarrow> [DelayAction_init fmt now wait_time]
         | None \<Rightarrow> [])
      else [])"

text \<open>The loop over the lines; \<open>clock k\<close> is the time while line \<open>k\<close> is read.\<close>

fun parse_lines ::
  "python \<Rightarrow> (pyval \<Rightarrow> string) \<Rightarrow> (nat \<Rightarrow> rat) \<Rightarrow> nat \<Rightarrow> string list \<Rightarrow> action list" where
  "parse_lines py fmt clock k [] = []"
| "parse_lines py fmt clock k (line # lines) =
     parse_line py fmt (clock k) line @ parse_lines py fmt clock (Suc k) lines"

definition parse_text_response ::
  "python \<Rightarrow> (pyval \<Rightarrow> string) \<Rightarrow> (nat \<Rightarrow> rat) \<Rightarrow> string \<Rightarrow> action list" where
  "parse_text_response py fmt clock content =
     parse_lines py fmt clock 0 (split_on CHR 0x0A content)"

text \<open>
  \<^verbatim>\<open>GeminiProvider._create_action_from_data\<close>. \<^verbatim>\<open>data[key]\<close> raises
  \<^verbatim>\<open>KeyError\<close> on a missing key.
\<close>

definition subscript :: "dict \<Rightarrow> string \<Rightarrow> pyval res" where
  "subscript data k = (case map_of data k of Some v \<Rightarrow> Returns v | None \<Rightarrow> Raises KeyError)"

text \<open>
  The body of the \<^verbatim>\<open>try\<close> block. \<^verbatim>\<open>.get\<close> on a value that is not a dictionary and
  \<^verbatim>\<open>.upper()\<close> on a type that is not a string raise \<^verbatim>\<open>AttributeError\<close>, and so does
  \<^verbatim>\<open>button.title()\<close> in \<^verbatim>\<open>ClickAction.__init__\<close>. A text that cannot be sliced
  and hotkey keys that cannot be joined raise \<^verbatim>\<open>TypeError\<close>. A hotkey given as one
  string is wrapped in a list by \<^verbatim>\<open>HotkeyAction.__init__\<close>. \<open>Returns None\<close> is the
  \<^verbatim>\<open>return None\<close> at the end, for an unknown type.
\<close>

fun create_action_body ::
  "(pyval \<Rightarrow> string) \<Rightarrow> rat \<Rightarrow> pyval \<Rightarrow> action option res" where
  "create_action_body fmt now (PDict data) =
     (case dict_get data ''type'' (PStr '''') of
        PStr ty \<Rightarrow>
          (let action_type = str_upper ty; delay_value = dict_get data ''delay'' (PFloat 0) in
           if action_type = ''TYPE'' then
             and_then (subscript data ''text'') (\<lambda>text.
               case text of
                 PStr s \<Rightarrow> and_then (as_num delay_value) (\<lambda>d.
                            Returns (Some (TypeAction_init fmt now s d)))
               | PList vs \<Rightarrow> IllTyped
               | _ \<Rightarrow> Raises TypeError)
           else if action_type = ''CLICK'' then
             and_then (subscript data ''x'') (\<lambda>x.
             and_then (subscript data ''y'') (\<lambda>y.
               case dict_get data ''button'' (PStr ''left'') of
                 PStr button \<Rightarrow>
                   and_then (as_int x) (\<lambda>xi.
                   and_then (as_int y) (\<lambda>yi.
                   and_then (as_num delay_value) (\<lambda>d.
                     Returns (Some (ClickAction_init fmt now xi yi button d)))))
               | _ \<Rightarrow> Raises AttributeError))
           else if action_type = ''DELAY'' then
             and_then (subscript data ''wait_time'') (\<lambda>w.
             and_then (as_num w) (\<lambda>wait_time.
               Returns (Some (DelayAction_init fmt now wait_time))))
           else if action_type = ''HOTKEY'' then
             and_then (subscript data ''keys'') (\<lambda>keys.
               case as_str_list (case keys of PList vs \<Rightarrow> keys | _ \<Rightarrow> PList [keys]) of
                 Returns ks \<Rightarrow> and_then (as_num delay_value) (\<lambda>d.
                               Returns (Some (HotkeyAction_init fmt now ks d)))
               | _ \<Rightarrow> Raises TypeError)
           else if action_type = ''SPECIAL_KEY'' then
             and_then (subscript data ''key'') (\<lambda>key.
             and_then (as_str key) (\<lambda>k.
             and_then (as_num delay_value) (\<lambda>d.
               Returns (Some (SpecialKeyAction_init fmt now k d)))))
           else Returns None)
      | _ \<Rightarrow> Raises AttributeError)"
| "create_action_body fmt now _ = Raises AttributeError"

text \<open>
  \<^verbatim>\<open>except (KeyError, TypeError, ValueError)\<close>: these three are logged and the entry
  gives \<^verbatim>\<open>None\<close>; any other exception leaves the function.
\<close>

definition create_action_from_data ::
  "(pyval \<Rightarrow> string) \<Rightarrow> rat \<Rightarrow> pyval \<Rightarrow> action option res" where
  "create_action_from_data fmt now data =
     (case create_action_body fmt now data of
        Raises e \<Rightarrow> (if e \<in> {KeyError, TypeError, ValueError} then Returns None else Raises e)
      | r \<Rightarrow> r)"

text \<open>
  The loop \<^verbatim>\<open>for action_data in data.get('actions', [])\<close>: an action is appended,
  \<^verbatim>\<open>None\<close> is skipped, an exception ends the loop.
\<close>

fun create_actions ::
  "(pyval \<Rightarrow> string) \<Rightarrow> (nat \<Rightarrow> rat) \<Rightarrow> nat \<Rightarrow> pyval list \<Rightarrow> action list res" where
  "create_actions fmt clock k [] = Returns []"
| "create_actions fmt clock k (action_data # more_data) =
     and_then (create_action_from_data fmt (clock k) action_data) (\<lambda>action.
     and_then (create_actions fmt clock (Suc k) more_data) (\<lambda>actions.
       Returns (case action of Some a \<Rightarrow> a # actions | None \<Rightarrow> actions)))"

text \<open>
  What a \<^verbatim>\<open>for\<close> loop iterates over: the elements of a list, the characters of a
  string, the keys of a dictionary; other values raise \<^verbatim>\<open>TypeError\<close>.
\<close>

fun iterate :: "pyval \<Rightarrow> pyval list res" where
  "iterate (PList vs) = Returns vs"
| "iterate (PStr s) = Returns (map (\<lambda>c. PStr [c]) s)"
| "iterate (PDict kvs) = Returns (map (\<lambda>kv. PStr (fst kv)) kvs)"
| "iterate _ = Raises TypeError"

text \<open>
  The structured stage, inside the \<^verbatim>\<open>try\<close> block of
  \<^verbatim>\<open>_parse_action_response\<close>: from the first \<^verbatim>\<open>{\<close> to the last \<^verbatim>\<open>}\<close>. Without such
  a span nothing is decoded and the list stays empty.
\<close>

definition structured_stage ::
  "python \<Rightarrow> (pyval \<Rightarrow> string) \<Rightarrow> (nat \<Rightarrow> rat) \<Rightarrow> string \<Rightarrow> action list res" where
  "structured_stage py fmt clock content =
     (let start_idx = str_find content CHR ''{'' 0;
          end_idx = str_rfind content CHR ''}'' + 1
      in if start_idx \<noteq> - 1 \<and> end_idx > start_idx then
           (case json_loads py (slice content (nat start_idx) end_idx) of
              None \<Rightarrow> Raises JSONDecodeError
            | Some (PDict data) \<Rightarrow>
                and_then (iterate (dict_get data ''actions'' (PList []))) (\<lambda>entries.
                  create_actions fmt clock 0 entries)
            | Some _ \<Rightarrow> Raises AttributeError)
         else Returns [])"

text \<open>
  \<^verbatim>\<open>_parse_action_response\<close>: \<^verbatim>\<open>except (json.JSONDecodeError, KeyError)\<close> replaces
  the list by the result of the fallback; any other exception reaches the caller.
\<close>

definition parse_action_response ::
  "python \<Rightarrow> (pyval \<Rightarrow> string) \<Rightarrow> (nat \<Rightarrow> rat) \<Rightarrow> string \<Rightarrow> action list res" where
  "parse_action_response py fmt clock content =
     (case structured_stage py fmt clock content of
        Raises e \<Rightarrow>
          (if e \<in> {JSONDecodeError, KeyError}
           then Returns (parse_text_response py fmt clock content)
           else Raises e)
      | r \<Rightarrow> r)"

text \<open>The brace span of a response, when it has one.\<close>

definition has_span :: "string \<Rightarrow> bool" where
  "has_span content \<longleftrightarrow>
     str_find content CHR ''{'' 0 \<noteq> - 1
     \<and> str_rfind content CHR ''}'' + 1 > str_find content CHR ''{'' 0"

definition span :: "string \<Rightarrow> string" where
  "span content =
     slice content (nat (str_find content CHR ''{'' 0)) (str_rfind content CHR ''}'' + 1)"

section \<open>Example inputs\<close>

text \<open>
  The scenario of the specification: a sequence of three actions whose second one
  fails, run with and without stop-on-error; a stop request after the first action; a
  looping sequence; an action with a description of its own.
\<close>

definition click_at :: "int \<Rightarrow> action" where
  "click_at k =
     \<lparr>delay = 0, ident = PNone, name = ''Left Click'', description = ''Click'',
      enabled = True, created_at = 0, variant = ClickAction k k ''left''\<rparr>"

definition three_clicks :: "bool \<Rightarrow> action_sequence" where
  "three_clicks stop =
     \<lparr>seq_name = ''three clicks'', actions = [click_at 1, click_at 2, click_at 3],
      loop_enabled = False, loop_count = 1, repeat_interval = 0, stop_on_error = stop,
      is_running = False, current_action_index = 0, current_loop = 0\<rparr>"

definition second_click_fails :: env where
  "second_click_fails =
     \<lparr>device_raises = (\<lambda>h op. op = Click 2 2 ''left''), stop_check = None,
      progress_callback = False\<rparr>"

definition stop_after_first :: env where
  "stop_after_first =
     \<lparr>device_raises = (\<lambda>h op. False), stop_check = Some (\<lambda>h. executions h \<noteq> []),
      progress_callback = False\<rparr>"

definition quiet_device :: env where
  "quiet_device =
     \<lparr>device_raises = (\<lambda>h op. False), stop_check = None, progress_callback = True\<rparr>"

definition looping :: action_sequence where
  "looping =
     \<lparr>seq_name = ''loop'', actions = [click_at 1, click_at 2],
      loop_enabled = True, loop_count = 3, repeat_interval = 2, stop_on_error = True,
      is_running = False, current_action_index = 0, current_loop = 0\<rparr>"

definition plain_fmt :: "pyval \<Rightarrow> string" where
  "plain_fmt v = []"


text \<open>
  A decoder that reads the one document \<^verbatim>\<open>{"actions": 5}\<close> as Python's
  \<^verbatim>\<open>json.loads\<close> does and rejects every other text.
\<close>

definition sample_python :: python where
  "sample_python =
     \<lparr>json_loads = (\<lambda>s. if s = ''{\"actions\": 5}''
                          then Some (PDict [(''actions'', PInt 5)]) else None),
      py_int = (\<lambda>s. None), py_float = (\<lambda>s. None)\<rparr>"

section \<open>Theorems: tokenizer\<close>

declare parse_loop.simps [simp del]

lemma index_of_less: "index_of c xs = Some k \<Longrightarrow> k < length xs"
  by (induction xs arbitrary: k) (auto split: if_splits)

lemma str_find_at_bracket:
  assumes "i < length text" and "text ! i = CHR ''<''"
  shows "str_find text CHR ''>'' i =
     (case index_of CHR ''>'' (drop (Suc i) text) of None \<Rightarrow> - 1 | Some k \<Rightarrow> int (Suc i + k))"
proof -
  from assms have "drop i text = CHR ''<'' # drop (Suc i) text"
    by (metis Cons_nth_drop_Suc)
  then show ?thesis
    by (simp add: str_find_def split: option.splits)
qed

lemma slice_at_bracket:
  assumes "i < length text"
  shows "slice text i (int (Suc i + k) + 1) = text ! i # take (Suc k) (drop (Suc i) text)"
proof -
  from assms have "drop i text = text ! i # drop (Suc i) text"
    by (metis Cons_nth_drop_Suc)
  moreover have "nat (int (Suc i + k) + 1) - i = Suc (Suc k)" by simp
  ultimately show ?thesis by (simp add: slice_def)
qed

lemma parse_loop_tokenize:
  "i \<le> length s \<Longrightarrow> parse_loop s i lit parts = parts @ tokenize lit (drop i s)"
proof (induction s i lit parts rule: parse_loop.induct)
  case (1 s i current_text parts)
  show ?case
  proof (cases "i < length s")
    case False
    with 1(3) show ?thesis by (simp add: parse_loop.simps flush_def)
  next
    case lt: True
    then have dr: "drop i s = s ! i # drop (Suc i) s"
      by (metis Cons_nth_drop_Suc)
    show ?thesis
    proof (cases "s ! i = CHR ''<''")
      case False
      with lt 1(2) dr show ?thesis
        by (subst parse_loop.simps) simp
    next
      case br: True
      note fnd = str_find_at_bracket [OF lt br]
      show ?thesis
      proof (cases "index_of CHR ''>'' (drop (Suc i) s)")
        case None
        with lt br fnd 1(2) dr show ?thesis
          by (subst parse_loop.simps) simp
      next
        case (Some k)
        with fnd have f: "str_find s CHR ''>'' i = int (Suc i + k)" by simp
        have sl: "slice s i (str_find s CHR ''>'' i + 1)
                  = CHR ''<'' # take (Suc k) (drop (Suc i) s)"
          using slice_at_bracket [OF lt, of k] br f by simp
        from Some have kl: "Suc i + k < length s"
          using index_of_less [OF Some] by simp
        show ?thesis
        proof (cases "map_of SPECIAL_KEYS (str_lower (CHR ''<'' # take (Suc k) (drop (Suc i) s)))")
          case None
          with lt br f sl 1(2) dr Some show ?thesis
            by (subst parse_loop.simps) simp
        next
          case (Some key)
          have hit: "s ! i = CHR ''<'' \<and> str_find s CHR ''>'' i \<noteq> - 1 \<and>
              map_of SPECIAL_KEYS (str_lower (slice s i (str_find s CHR ''>'' i + 1))) \<noteq> None"
            using br f sl Some by simp
          have nx: "nat (str_find s CHR ''>'' i + 1) = Suc (Suc i + k)"
            using f by simp
          have "parse_loop s i current_text parts =
                parse_loop s (Suc (Suc i + k)) []
                  ((if current_text \<noteq> [] then parts @ [(''text'', current_text)] else parts)
                     @ [(''key'', key)])"
            using lt hit nx sl Some by (subst parse_loop.simps) simp
          also have "\<dots> = ((if current_text \<noteq> [] then parts @ [(''text'', current_text)] else parts)
                     @ [(''key'', key)]) @ tokenize [] (drop (Suc (Suc i + k)) s)"
            using 1(1) [OF lt hit] kl nx sl Some by simp
          also have "\<dots> = parts @ tokenize current_text (drop i s)"
            using dr br \<open>index_of CHR ''>'' (drop (Suc i) s) = Some k\<close> Some
            by (simp add: flush_def add.commute)
          finally show ?thesis .
        qed
      qed
    qed
  qed
qed


text \<open>
  C5. The tokenizer, for every input, is the left-to-right scan of the specification:
  a bracketed substring whose lowercase form is registered is emitted as a key segment
  after the accumulated literal text has been flushed; on a miss (no closing bracket,
  or an unregistered bracketed substring) the opening bracket is kept as literal text
  and the scan advances by one. The two inputs of the specification give the stated
  segments.
\<close>

theorem tokenizer_scan:
  "parse_text_with_special_keys s = tokenize [] s
   \<and> parse_text_with_special_keys ''Hello<enter>World''
       = [(''text'', ''Hello''), (''key'', ''enter''), (''text'', ''World'')]
   \<and> parse_text_with_special_keys ''<bogus>ok'' = [(''text'', ''<bogus>ok'')]"
proof -
  have "parse_text_with_special_keys s = tokenize [] s"
    using parse_loop_tokenize [of 0 s "[]" "[]"]
    by (simp add: parse_text_with_special_keys_def)
  moreover have "parse_text_with_special_keys ''Hello<enter>World''
       = [(''text'', ''Hello''), (''key'', ''enter''), (''text'', ''World'')]"
    unfolding parse_text_with_special_keys_def
    by (simp add: parse_loop.simps str_find_def slice_def str_lower_def lower_char_def
        SPECIAL_KEYS_def)
  moreover have "parse_text_with_special_keys ''<bogus>ok'' = [(''text'', ''<bogus>ok'')]"
    unfolding parse_text_with_special_keys_def
    by (simp add: parse_loop.simps str_find_def slice_def str_lower_def lower_char_def
        SPECIAL_KEYS_def)
  ultimately show ?thesis by simp
qed

text \<open>An opening bracket that is never closed stays literal text.\<close>

lemma tokenizer_unmatched_bracket:
  "parse_text_with_special_keys ''a<b'' = [(''text'', ''a<b'')]"
  unfolding parse_text_with_special_keys_def
  by (simp add: parse_loop.simps str_find_def slice_def str_lower_def lower_char_def
      SPECIAL_KEYS_def)

text \<open>The bracketed token is matched whatever its case; the literal text keeps its case.\<close>

lemma tokenizer_case_insensitive:
  "parse_text_with_special_keys ''Ab<TAB>Cd'' = [(''text'', ''Ab''), (''key'', ''tab''), (''text'', ''Cd'')]"
  unfolding parse_text_with_special_keys_def
  by (simp add: parse_loop.simps str_find_def slice_def str_lower_def lower_char_def
      SPECIAL_KEYS_def)

section \<open>Theorems: executing and serializing one action\<close>

lemmas engine_eval =
  execute_def run_loops.simps run_actions.simps poll_stop_def report_def execute_action_def
  execute_impl.simps device_def time_sleep_def between_loops_def finally_block_def Let_def

lemmas serial_eval =
  create_from_dict_def construct_def from_dict_def Action_from_dict_def to_dict_def
  Action_to_dict_def dict_get_def TypeAction_init_def ClickAction_init_def DelayAction_init_def
  HotkeyAction_init_def SpecialKeyAction_init_def ScrollAction_init_def DragAction_init_def
  Action_init_def


text \<open>
  C10. An action whose \<^verbatim>\<open>enabled\<close> field is false returns success at once: the
  history is unchanged, so neither the sleep of \<^verbatim>\<open>delay\<close> seconds nor any device
  operation took place.
\<close>

theorem disabled_action_skipped:
  "\<not> enabled a \<Longrightarrow> execute_action e a h = (Returned True, h)"
  by (simp add: execute_action_def)

theorem disabled_action_skipped_witness:
  "\<not> enabled ((click_at 1)\<lparr>delay := 5, enabled := False\<rparr>)
   \<and> execute_action quiet_device ((click_at 1)\<lparr>delay := 5, enabled := False\<rparr>) []
       = (Returned True, [])"
  using disabled_action_skipped [of "(click_at 1)\<lparr>delay := 5, enabled := False\<rparr>" quiet_device "[]"]
  by simp


text \<open>The same action, enabled, sleeps for its delay and then clicks.\<close>

lemma enabled_action_sleeps_and_acts:
  "execute_action quiet_device ((click_at 1)\<lparr>delay := 5\<rparr>) []
     = (Returned True, [Sleep 5, Performed (Click 1 1 ''left'')])"
  by (simp add: engine_eval click_at_def quiet_device_def)


text \<open>
  A Delay action built by its constructor has the base delay 0 and waits for
  \<^verbatim>\<open>wait_time\<close> only.
\<close>

lemma DelayAction_constructed_waits:
  "0 \<le> w \<Longrightarrow> execute_action e (DelayAction_init fmt now w) h = (Returned True, h @ [Sleep w])"
  by (simp add: execute_action_def DelayAction_init_def Action_init_def time_sleep_def)


text \<open>
  C9. A Delay action loaded by the factory from a mapping with \<^verbatim>\<open>"delay": 2\<close> and
  \<^verbatim>\<open>"wait_time": 1\<close> keeps the base delay 2 (\<^verbatim>\<open>Action.from_dict\<close> stores it) and
  \<^verbatim>\<open>Action.execute\<close> sleeps for it before \<^verbatim>\<open>_execute_impl\<close> sleeps for
  \<^verbatim>\<open>wait_time\<close>: the action waits 2 seconds and then 1 second, not 1 second only.
\<close>

theorem DelayAction_loaded_waits_twice:
  "and_then
     (create_from_dict fmt t0 t1
        [(''type'', PStr ''DelayAction''), (''wait_time'', PFloat 1), (''delay'', PFloat 2)])
     (\<lambda>a. Returns (execute_action e a h))
   = Returns (Returned True, h @ [Sleep 2, Sleep 1])"
  by (simp add: serial_eval execute_action_def time_sleep_def)

lemma as_str_list_elems_map: "as_str_list_elems (map PStr keys) = Returns keys"
  by (induction keys) simp_all


lemma create_from_dict_to_dict:
  "create_from_dict fmt t0 t1 (to_dict a)
     = Returns (a\<lparr>description := describe fmt (variant a)\<rparr>)"
proof (cases a)
  case (fields d i n ds en c v)
  then show ?thesis
    by (cases v) (simp_all add: serial_eval as_str_list_elems_map)
qed




text \<open>The round trip is exact for an action whose description is the derived one,
  as it is after every constructor.\<close>

lemma clone_exact:
  "description a = describe fmt (variant a) \<Longrightarrow> clone fmt t0 t1 a = Returns a"
  by (simp add: clone_def create_from_dict_to_dict)

lemma constructed_description:
  "description (TypeAction_init fmt now text d) = describe fmt (TypeAction text)"
  "description (ClickAction_init fmt now x y button d) = describe fmt (ClickAction x y button)"
  "description (DelayAction_init fmt now w) = describe fmt (DelayAction w)"
  "description (HotkeyAction_init fmt now keys d) = describe fmt (HotkeyAction keys)"
  "description (SpecialKeyAction_init fmt now key d) = describe fmt (SpecialKeyAction key)"
  "description (ScrollAction_init fmt now x y clicks direction d)
     = describe fmt (ScrollAction x y clicks direction)"
  "description (DragAction_init fmt now sx sy ex ey duration button d)
     = describe fmt (DragAction sx sy ex ey duration button)"
  by (simp_all add: serial_eval)

section \<open>Theorems: the sequence engine\<close>

subsection \<open>The inner loop\<close>

lemma executions_append [simp]: "executions (h @ h') = executions h @ executions h'"
  by (induction h rule: executions.induct) simp_all

lemma markers_append [simp]: "markers (h @ h') = markers h @ markers h'"
  by (induction h rule: markers.induct) simp_all

lemma steps_append [simp]: "steps (h @ h') = steps h @ steps h'"
  by (induction h rule: steps.induct) simp_all

text \<open>An action leaves only sleeps and device events.\<close>

lemma silent_Nil [simp]: "silent []"
  by (simp add: silent_def)

lemma silent_append [simp]: "silent (d @ d') \<longleftrightarrow> silent d \<and> silent d'"
  by (auto simp: silent_def)

lemma time_sleep_events:
  "time_sleep secs h = (b, h') \<Longrightarrow> \<exists>d. h' = h @ d \<and> silent d"
  by (auto simp: time_sleep_def silent_def split: if_splits)

lemma device_events:
  "device e op h = (b, h') \<Longrightarrow> \<exists>d. h' = h @ d \<and> silent d"
  by (auto simp: device_def silent_def split: if_splits)

lemma type_parts_events:
  "type_parts e ps h = (b, h') \<Longrightarrow> \<exists>d. h' = h @ d \<and> silent d"
proof (induction ps arbitrary: h)
  case Nil
  then show ?case by simp
next
  case (Cons p ps)
  obtain part_type part_value where p: "p = (part_type, part_value)" by (cases p)
  obtain b1 h1 where d: "device e (if part_type = ''text'' then Typewrite part_value
      else Press part_value) h = (b1, h1)" by fastforce
  from device_events [OF d] obtain d1 where h1: "h1 = h @ d1" "silent d1" by blast
  show ?case
  proof (cases b1)
    case True
    with Cons.prems p d have "type_parts e ps h1 = (b, h')" by simp
    from Cons.IH [OF this] h1 show ?thesis by auto
  next
    case False
    with Cons.prems p d h1 show ?thesis by auto
  qed
qed

lemma execute_impl_events:
  "execute_impl e v h = (b, h') \<Longrightarrow> \<exists>d. h' = h @ d \<and> silent d"
proof (cases v)
  case (ScrollAction x y clicks direction)
  assume r: "execute_impl e v h = (b, h')"
  obtain b1 h1 where d: "device e (MoveTo x y) h = (b1, h1)" by fastforce
  from device_events [OF d] obtain d1 where h1: "h1 = h @ d1" "silent d1" by blast
  show ?thesis
  proof (cases b1)
    case True
    with r ScrollAction d
    have "device e (Scroll (if direction = ''up'' then clicks else - clicks) x y) h1 = (b, h')"
      by simp
    from device_events [OF this] h1 show ?thesis by auto
  next
    case False
    with r ScrollAction d h1 show ?thesis by auto
  qed
qed (auto dest: device_events time_sleep_events type_parts_events split: if_splits)

lemma execute_action_events:
  assumes "execute_action e a h = (out, h')"
  shows "\<exists>d. h' = h @ d \<and> silent d"
proof (cases "enabled a")
  case False
  with assms show ?thesis by (simp add: execute_action_def)
next
  case True
  obtain b1 h1 where s: "(if delay a > 0 then time_sleep (delay a) h else (True, h)) = (b1, h1)"
    by fastforce
  then have h1: "\<exists>d. h1 = h @ d \<and> silent d"
    by (auto dest: time_sleep_events split: if_splits)
  show ?thesis
  proof (cases b1)
    case False
    with assms True s h1 show ?thesis by (simp add: execute_action_def)
  next
    case b1: True
    obtain b2 h2 where i: "execute_impl e (variant a) h1 = (b2, h2)" by fastforce
    from execute_impl_events [OF i] h1 have "\<exists>d. h2 = h @ d \<and> silent d" by auto
    moreover from assms True s b1 i have "h' = h2"
      by (cases b2) (simp_all add: execute_action_def)
    ultimately show ?thesis by simp
  qed
qed


lemma poll_stop_events:
  "poll_stop e h = (b, h') \<Longrightarrow> \<exists>d. h' = h @ d \<and> silent d"
  by (auto simp: poll_stop_def silent_def split: option.splits)

lemma poll_stop_never: "never_stops e \<Longrightarrow> poll_stop e h = (b, h') \<Longrightarrow> \<not> b"
  by (auto simp: poll_stop_def never_stops_def split: option.splits)

lemma report_action_events:
  "\<exists>d. report e (Progress l n (int i) tot (Some a)) h = h @ d \<and> silent d"
  by (simp add: report_def silent_def)

text \<open>One turn of the inner loop.\<close>

lemma run_actions_turn:
  assumes "run_actions e l n i (a # rest) s h = (fl, s', h')"
  obtains (stopped) d where "fl = Stopped" "h' = h @ d" "silent d" "\<not> never_stops e"
      "s' = s\<lparr>current_action_index := i\<rparr>"
  | (aborted) d out where "fl = Aborted" "h' = h @ d @ [Executed l i out]" "silent d"
      "out \<noteq> Returned True" "stop_on_error s" "s' = s\<lparr>current_action_index := i\<rparr>"
  | (continued) d out where "silent d" "out = Returned True \<or> \<not> stop_on_error s"
      "run_actions e l n (Suc i) rest (s\<lparr>current_action_index := i\<rparr>)
         (h @ d @ [Executed l i out]) = (fl, s', h')"
proof -
  obtain b h1 where p: "poll_stop e h = (b, h1)" by fastforce
  from poll_stop_events [OF p] obtain d1 where d1: "h1 = h @ d1" "silent d1" by blast
  show thesis
  proof (cases b)
    case True
    with assms p have "fl = Stopped" "h' = h1" "s' = s\<lparr>current_action_index := i\<rparr>"
      by (simp_all add: Let_def)
    moreover from True p have "\<not> never_stops e" using poll_stop_never by blast
    ultimately show thesis using d1 stopped by blast
  next
    case False
    obtain d2 where d2: "report e (Progress l n (int i) (length (actions s)) (Some a)) h1 = h1 @ d2"
      "silent d2" using report_action_events by blast
    obtain out h2 where x: "execute_action e a (h1 @ d2) = (out, h2)" by fastforce
    from execute_action_events [OF x] obtain d3 where d3: "h2 = (h1 @ d2) @ d3" "silent d3"
      by blast
    let ?d = "d1 @ d2 @ d3"
    have sd: "silent ?d" using d1 d2 d3 by simp
    have h2: "h2 = h @ ?d" using d1 d3 by simp
    show thesis
    proof (cases "out \<noteq> Returned True \<and> stop_on_error s")
      case True
      with assms p False d2 x have "fl = Aborted" "h' = h2 @ [Executed l i out]"
        "s' = s\<lparr>current_action_index := i\<rparr>"
        by (simp_all add: Let_def)
      with True h2 sd show thesis using aborted [of ?d out] by simp
    next
      case nb: False
      with assms p False d2 x
      have "run_actions e l n (Suc i) rest (s\<lparr>current_action_index := i\<rparr>)
              (h2 @ [Executed l i out]) = (fl, s', h')"
        by (simp add: Let_def)
      with nb h2 sd show thesis using continued [of ?d out] by auto
    qed
  qed
qed

lemma run_actions_config:
  "run_actions e l n i as s h = (fl, s', h') \<Longrightarrow>
     \<exists>k. s' = s\<lparr>current_action_index := k\<rparr>"
proof (induction as arbitrary: i s h)
  case Nil
  then have "s' = s\<lparr>current_action_index := current_action_index s\<rparr>" by simp
  then show ?case by blast
next
  case (Cons a rest)
  from Cons.prems show ?case
  proof (cases rule: run_actions_turn)
    case (continued d out)
    from Cons.IH [OF continued(3)] show ?thesis by auto
  qed auto
qed

text \<open>Under stop-on-error, a failed execution is the last one and aborts the run.\<close>

lemma run_actions_stop_on_error:
  "run_actions e l n i as s h = (fl, s', h') \<Longrightarrow> stop_on_error s \<Longrightarrow>
     \<exists>xs. executions h' = executions h @ xs \<and>
       (if fl = Aborted
        then \<exists>ys l' i' out. xs = ys @ [(l', i', out)] \<and> all_succeeded ys \<and> out \<noteq> Returned True
        else all_succeeded xs)"
proof (induction as arbitrary: i s h)
  case Nil
  then show ?case by (simp add: all_succeeded_def)
next
  case (Cons a rest)
  from Cons.prems(1) show ?case
  proof (cases rule: run_actions_turn)
    case (stopped d)
    then show ?thesis by (simp add: silent_def all_succeeded_def)
  next
    case (aborted d out)
    then have "executions h' = executions h @ [] @ [(l, i, out)]"
      by (simp add: silent_def)
    with aborted show ?thesis by (auto simp: all_succeeded_def)
  next
    case (continued d out)
    with Cons.prems(2) have out: "out = Returned True" by simp
    have "stop_on_error (s\<lparr>current_action_index := i\<rparr>)" using Cons.prems(2) by simp
    from Cons.IH [OF continued(3) this] obtain xs where
      xs: "executions h' = executions (h @ d @ [Executed l i out]) @ xs"
      "if fl = Aborted
        then \<exists>ys l' i' out. xs = ys @ [(l', i', out)] \<and> all_succeeded ys \<and> out \<noteq> Returned True
        else all_succeeded xs" by blast
    from xs(1) continued(1) have e: "executions h' = executions h @ ((l, i, out) # xs)"
      by (simp add: silent_def)
    show ?thesis
    proof (cases "fl = Aborted")
      case True
      with xs(2) obtain ys l' i' out' where
        "xs = ys @ [(l', i', out')]" "all_succeeded ys" "out' \<noteq> Returned True" by auto
      then have "(l, i, out) # xs = ((l, i, out) # ys) @ [(l', i', out')]"
        "all_succeeded ((l, i, out) # ys)" using out by (simp_all add: all_succeeded_def)
      with True e \<open>out' \<noteq> Returned True\<close> show ?thesis by (metis (full_types))
    next
      case False
      with xs(2) out have "all_succeeded ((l, i, out) # xs)" by (simp add: all_succeeded_def)
      with False e show ?thesis by auto
    qed
  qed
qed

text \<open>Without stop-on-error the inner loop never aborts.\<close>

lemma run_actions_continue:
  "run_actions e l n i as s h = (fl, s', h') \<Longrightarrow> \<not> stop_on_error s \<Longrightarrow> fl \<noteq> Aborted"
proof (induction as arbitrary: i s h)
  case Nil
  then show ?case by auto
next
  case (Cons a rest)
  from Cons.prems(1) show ?case
  proof (cases rule: run_actions_turn)
    case (continued d out)
    have "\<not> stop_on_error (s\<lparr>current_action_index := i\<rparr>)" using Cons.prems(2) by simp
    from Cons.IH [OF continued(3) this] show ?thesis .
  qed (use Cons.prems(2) in auto)
qed

text \<open>When the stop predicate never fires, a loop that is not aborted runs every action once, in order.\<close>

lemma run_actions_complete:
  "run_actions e l n i as s h = (fl, s', h') \<Longrightarrow> never_stops e \<Longrightarrow>
     fl \<noteq> Stopped \<and> markers h' = markers h \<and>
     (fl = Completed \<longrightarrow>
        map (\<lambda>(l, i, out). (l, i)) (executions h')
          = map (\<lambda>(l, i, out). (l, i)) (executions h) @ map (Pair l) [i..<i + length as]
        \<and> steps h' = steps h @ map (Ran l) [i..<i + length as])"
proof (induction as arbitrary: i s h)
  case Nil
  then show ?case by auto
next
  case (Cons a rest)
  from Cons.prems(1) show ?case
  proof (cases rule: run_actions_turn)
    case (stopped d)
    with Cons.prems(2) show ?thesis by simp
  next
    case (aborted d out)
    then show ?thesis by (simp add: silent_def)
  next
    case (continued d out)
    have "[i..<i + length (a # rest)] = i # [Suc i..<i + length (a # rest)]"
      by (rule upt_conv_Cons) simp
    then have up: "[i..<i + length (a # rest)] = i # [Suc i..<Suc i + length rest]"
      by simp
    from Cons.IH [OF continued(3) Cons.prems(2)] continued(1) show ?thesis
      unfolding up by (simp add: silent_def)
  qed
qed


subsection \<open>The outer loop\<close>

lemma between_loops_events:
  "executions (between_loops e l n s h) = executions h
   \<and> markers (between_loops e l n s h)
       = markers h @ (if pause_due s n l \<and> progress_callback e then [(l, n, length (actions s))] else [])
   \<and> steps (between_loops e l n s h)
       = steps h @ (if pause_due s n l \<and> progress_callback e then [Paused l] else [])"
  by (simp add: between_loops_def pause_due_def report_def)

lemma run_loops_turn:
  assumes "run_loops e n (l # later) s h = (r, s', h')"
  obtains (stopped) d where "r" "h' = h @ d" "silent d" "\<not> never_stops e"
  | (aborted) d where "\<not> r" "silent d"
      "run_actions e l n 0 (actions s) (s\<lparr>current_loop := int l + 1\<rparr>) (h @ d) = (Aborted, s', h')"
  | (continued) d fl s2 h2 where "silent d" "fl \<noteq> Aborted"
      "run_actions e l n 0 (actions s) (s\<lparr>current_loop := int l + 1\<rparr>) (h @ d) = (fl, s2, h2)"
      "run_loops e n later s2 (between_loops e l n s2 h2) = (r, s', h')"
proof -
  obtain b h1 where p: "poll_stop e h = (b, h1)" by fastforce
  from poll_stop_events [OF p] obtain d where d: "h1 = h @ d" "silent d" by blast
  show thesis
  proof (cases b)
    case True
    with assms p have "r" "h' = h1" by (simp_all add: Let_def)
    moreover from True p have "\<not> never_stops e" using poll_stop_never by blast
    ultimately show thesis using d stopped by blast
  next
    case False
    obtain fl s2 h2 where
      ra: "run_actions e l n 0 (actions s) (s\<lparr>current_loop := int l + 1\<rparr>) h1 = (fl, s2, h2)"
      by (metis prod_cases3)
    show thesis
    proof (cases "fl = Aborted")
      case True
      with assms p False ra have "\<not> r" "s' = s2" "h' = h2" by (simp_all add: Let_def)
      with True ra d show thesis using aborted [of d] by simp
    next
      case nb: False
      with assms p False ra
      have "run_loops e n later s2 (between_loops e l n s2 h2) = (r, s', h')"
        by (cases fl) (simp_all add: Let_def)
      with nb ra d show thesis using continued [of d fl s2 h2] by simp
    qed
  qed
qed

lemma run_loops_stop_on_error:
  "run_loops e n ls s h = (r, s', h') \<Longrightarrow> stop_on_error s \<Longrightarrow>
     \<exists>xs. executions h' = executions h @ xs \<and>
       (if \<not> r
        then \<exists>ys l' i' out. xs = ys @ [(l', i', out)] \<and> all_succeeded ys \<and> out \<noteq> Returned True
        else all_succeeded xs)"
proof (induction ls arbitrary: s h)
  case Nil
  then show ?case by (simp add: all_succeeded_def)
next
  case (Cons l later)
  from Cons.prems(1) show ?case
  proof (cases rule: run_loops_turn)
    case (stopped d)
    then show ?thesis by (simp add: silent_def all_succeeded_def)
  next
    case (aborted d)
    have "stop_on_error (s\<lparr>current_loop := int l + 1\<rparr>)" using Cons.prems(2) by simp
    from run_actions_stop_on_error [OF aborted(3) this] aborted(1,2) show ?thesis
      by (simp add: silent_def)
  next
    case (continued d fl s2 h2)
    have so: "stop_on_error (s\<lparr>current_loop := int l + 1\<rparr>)" using Cons.prems(2) by simp
    from run_actions_stop_on_error [OF continued(3) so] continued(1,2)
    obtain xs where xs: "executions h2 = executions h @ xs" "all_succeeded xs"
      by (auto simp: silent_def)
    from run_actions_config [OF continued(3)] Cons.prems(2) have "stop_on_error s2" by auto
    from Cons.IH [OF continued(4) this] between_loops_events [of e l n s2 h2]
    obtain zs where zs: "executions h' = executions h2 @ zs"
      "if \<not> r
        then \<exists>ys l' i' out. zs = ys @ [(l', i', out)] \<and> all_succeeded ys \<and> out \<noteq> Returned True
        else all_succeeded zs" by auto
    have e: "executions h' = executions h @ (xs @ zs)" using xs(1) zs(1) by simp
    show ?thesis
    proof (cases r)
      case True
      with zs(2) xs(2) have "all_succeeded (xs @ zs)" by (simp add: all_succeeded_def)
      with True e show ?thesis by auto
    next
      case False
      with zs(2) obtain ys l' i' out where
        "zs = ys @ [(l', i', out)]" "all_succeeded ys" "out \<noteq> Returned True" by auto
      then have "xs @ zs = (xs @ ys) @ [(l', i', out)]" "all_succeeded (xs @ ys)"
        using xs(2) by (simp_all add: all_succeeded_def)
      with False e \<open>out \<noteq> Returned True\<close> show ?thesis by (metis (full_types))
    qed
  qed
qed

lemma run_loops_continue:
  "run_loops e n ls s h = (r, s', h') \<Longrightarrow> \<not> stop_on_error s \<Longrightarrow> r"
proof (induction ls arbitrary: s h)
  case Nil
  then show ?case by simp
next
  case (Cons l later)
  from Cons.prems(1) show ?case
  proof (cases rule: run_loops_turn)
    case (stopped d)
    then show ?thesis by simp
  next
    case (aborted d)
    have "\<not> stop_on_error (s\<lparr>current_loop := int l + 1\<rparr>)" using Cons.prems(2) by simp
    from run_actions_continue [OF aborted(3) this] show ?thesis by simp
  next
    case (continued d fl s2 h2)
    from run_actions_config [OF continued(3)] Cons.prems(2) have "\<not> stop_on_error s2" by auto
    from Cons.IH [OF continued(4) this] show ?thesis .
  qed
qed

lemma run_loops_complete:
  "run_loops e n ls s h = (r, s', h') \<Longrightarrow> never_stops e \<Longrightarrow> r \<Longrightarrow>
     map (\<lambda>(l, i, out). (l, i)) (executions h')
       = map (\<lambda>(l, i, out). (l, i)) (executions h)
           @ concat (map (\<lambda>l. map (Pair l) [0..<length (actions s)]) ls)
     \<and> markers h' = markers h
           @ map (\<lambda>l. (l, n, length (actions s)))
               (filter (\<lambda>l. pause_due s n l \<and> progress_callback e) ls)
     \<and> steps h' = steps h
           @ concat (map (\<lambda>l. map (Ran l) [0..<length (actions s)]
                @ (if pause_due s n l \<and> progress_callback e then [Paused l] else [])) ls)"
proof (induction ls arbitrary: s h)
  case Nil
  then show ?case by simp
next
  case (Cons l later)
  from Cons.prems(1) show ?case
  proof (cases rule: run_loops_turn)
    case (stopped d)
    with Cons.prems(2) show ?thesis by simp
  next
    case (aborted d)
    with Cons.prems(3) show ?thesis by simp
  next
    case (continued d fl s2 h2)
    from run_actions_complete [OF continued(3) Cons.prems(2)] continued(2)
    have fl: "fl = Completed" by (cases fl) simp_all
    with run_actions_complete [OF continued(3) Cons.prems(2)] continued(1)
    have a: "map (\<lambda>(l, i, out). (l, i)) (executions h2)
          = map (\<lambda>(l, i, out). (l, i)) (executions h) @ map (Pair l) [0..<length (actions s)]"
      "markers h2 = markers h" "steps h2 = steps h @ map (Ran l) [0..<length (actions s)]"
      by (simp_all add: silent_def)
    from run_actions_config [OF continued(3)] obtain k where
      s2: "s2 = s\<lparr>current_loop := int l + 1, current_action_index := k\<rparr>" by auto
    then have cfg: "actions s2 = actions s" "pause_due s2 n = pause_due s n"
      by (simp_all add: pause_due_def fun_eq_iff)
    from Cons.IH [OF continued(4) Cons.prems(2,3)] between_loops_events [of e l n s2 h2] a cfg
    show ?thesis by simp
  qed
qed


subsection \<open>The three runs of the example\<close>

lemma run_abort:
  "execute second_click_fails (three_clicks True) [] =
     (False, three_clicks True,
      [Performed (Click 1 1 ''left''), Executed 0 0 (Returned True),
       Refused (Click 2 2 ''left''), Executed 0 1 ActionError])"
  by (simp add: engine_eval three_clicks_def click_at_def second_click_fails_def)

lemma run_continue:
  "execute second_click_fails (three_clicks False) [] =
     (True, three_clicks False,
      [Performed (Click 1 1 ''left''), Executed 0 0 (Returned True),
       Refused (Click 2 2 ''left''), Executed 0 1 ActionError,
       Performed (Click 3 3 ''left''), Executed 0 2 (Returned True)])"
  by (simp add: engine_eval three_clicks_def click_at_def second_click_fails_def)

lemma run_stop:
  "execute stop_after_first (three_clicks True) [] =
     (True, three_clicks True,
      [StopCheck False, StopCheck False, Performed (Click 1 1 ''left''), Executed 0 0 (Returned True),
       StopCheck True])"
  by (simp add: engine_eval three_clicks_def click_at_def stop_after_first_def)


lemma execute_run_loops:
  assumes "execute e s h = (r, s', h')"
  obtains s2 where
    "run_loops e (if loop_enabled s then loop_count s else 1)
       [0..<nat (if loop_enabled s then loop_count s else 1)] (s\<lparr>is_running := True\<rparr>) h
     = (r, s2, h')"
    "s' = finally_block s2"
  using assms by (cases "loop_enabled s") (auto simp: execute_def Let_def split: prod.splits)

lemma upt_filter_less: "filter (\<lambda>l. l < m) [0..<Suc m] = [0..<m]"
proof -
  have "filter (\<lambda>l. l < m) [0..<m] = [0..<m]" by (rule filter_True) simp
  then show ?thesis by simp
qed


subsection \<open>The claims\<close>

text \<open>
  C1. When an execution of an action fails (it raises \<^verbatim>\<open>ActionError\<close> or returns
  non-success): under stop-on-error the run aborts, \<^verbatim>\<open>execute()\<close> returns false and
  no action is executed after the failed one; without stop-on-error \<^verbatim>\<open>execute()\<close>
  returns true whatever failed, and, when no stop is requested, every action is executed
  exactly once in order in each pass of the loop (one pass when looping is off).
\<close>

theorem stop_on_error_policy:
  assumes "execute e s h = (r, s', h')"
  shows "(stop_on_error s \<longrightarrow>
            (\<forall>before l i out after.
               executions h' = executions h @ before @ (l, i, out) # after \<and> out \<noteq> Returned True
               \<longrightarrow> \<not> r \<and> after = []))
       \<and> (\<not> stop_on_error s \<longrightarrow>
            r \<and> (never_stops e \<longrightarrow>
                 map (\<lambda>(l, i, out). (l, i)) (executions h')
                   = map (\<lambda>(l, i, out). (l, i)) (executions h)
                       @ concat (map (\<lambda>l. map (Pair l) [0..<length (actions s)])
                           [0..<nat (if loop_enabled s then loop_count s else 1)])))"
proof -
  define n where "n = (if loop_enabled s then loop_count s else 1)"
  obtain s2 where run: "run_loops e n [0..<nat n] (s\<lparr>is_running := True\<rparr>) h = (r, s2, h')"
    using execute_run_loops [OF assms] unfolding n_def by blast
  have "\<not> r \<and> after = []"
    if so: "stop_on_error s"
      and ex: "executions h' = executions h @ before @ (l, i, out) # after"
      and bad: "out \<noteq> Returned True"
    for before l i out after
  proof -
    have "stop_on_error (s\<lparr>is_running := True\<rparr>)" using so by simp
    from run_loops_stop_on_error [OF run this] obtain xs where
      xs: "executions h' = executions h @ xs"
      "if \<not> r
        then \<exists>ys l' i' out. xs = ys @ [(l', i', out)] \<and> all_succeeded ys \<and> out \<noteq> Returned True
        else all_succeeded xs" by blast
    from xs(1) ex have split: "xs = before @ (l, i, out) # after" by simp
    have nr: "\<not> r"
    proof
      assume r
      with xs(2) have "all_succeeded xs" by simp
      with split bad show False by (simp add: all_succeeded_def)
    qed
    with xs(2) obtain ys l' i' out' where
      ys: "xs = ys @ [(l', i', out')]" "all_succeeded ys" by auto
    have "after = []"
    proof (rule ccontr)
      assume "after \<noteq> []"
      then obtain zs z where "after = zs @ [z]" by (metis rev_exhaust)
      with split ys(1) have "ys = before @ (l, i, out) # zs" by simp
      with ys(2) bad show False by (simp add: all_succeeded_def)
    qed
    with nr show ?thesis by simp
  qed
  moreover have "r" if "\<not> stop_on_error s"
    using run_loops_continue [OF run] that by simp
  moreover have "map (\<lambda>(l, i, out). (l, i)) (executions h')
                   = map (\<lambda>(l, i, out). (l, i)) (executions h)
                       @ concat (map (\<lambda>l. map (Pair l) [0..<length (actions s)]) [0..<nat n])"
    if "\<not> stop_on_error s" "never_stops e"
  proof -
    from that(1) have "r" using run_loops_continue [OF run] by simp
    from run_loops_complete [OF run that(2) this] show ?thesis by simp
  qed
  ultimately show ?thesis unfolding n_def by blast
qed

theorem stop_on_error_policy_witness:
  "stop_on_error (three_clicks True)
   \<and> executions (snd (snd (execute second_click_fails (three_clicks True) [])))
       = executions [] @ [(0, 0, Returned True)] @ (0, 1, ActionError) # []
   \<and> ActionError \<noteq> Returned True
   \<and> \<not> fst (execute second_click_fails (three_clicks True) [])
   \<and> \<not> stop_on_error (three_clicks False)
   \<and> never_stops second_click_fails
   \<and> fst (execute second_click_fails (three_clicks False) [])
   \<and> map (\<lambda>(l, i, out). (l, i))
        (executions (snd (snd (execute second_click_fails (three_clicks False) []))))
       = [(0, 0), (0, 1), (0, 2)]"
proof -
  have so: "stop_on_error (three_clicks True)" "\<not> stop_on_error (three_clicks False)"
    by (simp_all add: three_clicks_def)
  have cfg: "\<not> loop_enabled (three_clicks False)" "length (actions (three_clicks False)) = 3"
    by (simp_all add: three_clicks_def)
  have ns: "never_stops second_click_fails"
    by (simp add: never_stops_def second_click_fails_def)
  have ex: "executions (snd (snd (execute second_click_fails (three_clicks True) [])))
       = executions [] @ [(0, 0, Returned True)] @ (0, 1, ActionError) # []"
    by (simp add: run_abort)
  have "\<not> fst (execute second_click_fails (three_clicks True) [])"
    using stop_on_error_policy [OF run_abort] so(1) ex by (simp add: run_abort)
  moreover have "fst (execute second_click_fails (three_clicks False) [])
     \<and> map (\<lambda>(l, i, out). (l, i))
        (executions (snd (snd (execute second_click_fails (three_clicks False) []))))
       = [(0, 0), (0, 1), (0, 2)]"
    using stop_on_error_policy [OF run_continue] so(2) ns cfg
    by (simp add: run_continue)
  ultimately show ?thesis using so ns ex by simp
qed


text \<open>
  C2. After \<^verbatim>\<open>execute()\<close> returns, whatever the outcome, \<^verbatim>\<open>is_running\<close> is false
  and \<^verbatim>\<open>current_action_index\<close> and \<^verbatim>\<open>current_loop\<close> are 0. The witness shows the
  three outcomes: abort on error, early stop, normal completion.
\<close>

theorem runtime_reset:
  "execute e s h = (r, s', h') \<Longrightarrow>
     \<not> is_running s' \<and> current_action_index s' = 0 \<and> current_loop s' = 0"
  by (auto simp: execute_def finally_block_def Let_def split: prod.splits)

theorem runtime_reset_witness:
  "\<not> fst (execute second_click_fails (three_clicks True) [])
   \<and> \<not> is_running (fst (snd (execute second_click_fails (three_clicks True) [])))
   \<and> current_action_index (fst (snd (execute second_click_fails (three_clicks True) []))) = 0
   \<and> current_loop (fst (snd (execute second_click_fails (three_clicks True) []))) = 0
   \<and> executions (snd (snd (execute stop_after_first (three_clicks True) [])))
       = [(0, 0, Returned True)]
   \<and> \<not> is_running (fst (snd (execute stop_after_first (three_clicks True) [])))
   \<and> current_action_index (fst (snd (execute stop_after_first (three_clicks True) []))) = 0
   \<and> current_loop (fst (snd (execute stop_after_first (three_clicks True) []))) = 0
   \<and> fst (execute second_click_fails (three_clicks False) [])
   \<and> \<not> is_running (fst (snd (execute second_click_fails (three_clicks False) [])))
   \<and> current_action_index (fst (snd (execute second_click_fails (three_clicks False) []))) = 0
   \<and> current_loop (fst (snd (execute second_click_fails (three_clicks False) []))) = 0"
  using runtime_reset [OF run_abort] runtime_reset [OF run_stop] runtime_reset [OF run_continue]
  by (simp add: run_abort run_stop run_continue)






text \<open>
  C7. In a run with looping enabled, \<^verbatim>\<open>loop_count = n \<ge> 1\<close>, a positive
  \<^verbatim>\<open>repeat_interval\<close>, a progress callback, no stop request and no abort, the marker
  call \<^verbatim>\<open>progress_callback(loop_index, loop_count, -1, total_actions, None)\<close> is made
  exactly \<open>n - 1\<close> times, for the loops \<open>0 .. n - 2\<close> in order, each time after the
  executions of its loop and before those of the next: never before the first pass and
  never after the last.
\<close>

theorem inter_loop_marker:
  assumes "execute e s h = (r, s', h')"
    and "loop_enabled s" and "1 \<le> loop_count s" and "0 < repeat_interval s"
    and "progress_callback e" and "never_stops e" and "r"
  shows "markers h' = markers h
           @ map (\<lambda>l. (l, loop_count s, length (actions s))) [0..<nat (loop_count s) - 1]
       \<and> length (markers h') = length (markers h) + (nat (loop_count s) - 1)
       \<and> steps h' = steps h
           @ concat (map (\<lambda>l. map (Ran l) [0..<length (actions s)]
                @ (if l < nat (loop_count s) - 1 then [Paused l] else []))
               [0..<nat (loop_count s)])"
proof -
  let ?n = "loop_count s"
  let ?s1 = "s\<lparr>is_running := True\<rparr>"
  obtain s2 where run: "run_loops e ?n [0..<nat ?n] ?s1 h = (r, s2, h')"
    using execute_run_loops [OF assms(1)] assms(2) by auto
  have due: "(pause_due ?s1 ?n l \<and> progress_callback e) = (l < nat ?n - 1)" for l
    using assms(2-5) by (auto simp: pause_due_def)
  obtain m where m: "nat ?n = Suc m" using assms(3) by (cases "nat ?n") auto
  have "filter (\<lambda>l. l < nat ?n - 1) [0..<nat ?n] = [0..<nat ?n - 1]"
    unfolding m using upt_filter_less [of m] by simp
  with run_loops_complete [OF run assms(6,7)] due
  have m: "markers h' = markers h
           @ map (\<lambda>l. (l, ?n, length (actions s))) [0..<nat ?n - 1]"
    and st: "steps h' = steps h
           @ concat (map (\<lambda>l. map (Ran l) [0..<length (actions s)]
                @ (if l < nat ?n - 1 then [Paused l] else [])) [0..<nat ?n])"
    by simp_all
  from m have "length (markers h') = length (markers h) + (nat ?n - 1)" by simp
  with m st show ?thesis by simp
qed


lemma upt_0_3: "[0..<3] = [0, 1, 2]"
  by code_simp

lemma upt_0_2: "[0..<2] = [0, 1]"
  by code_simp

theorem inter_loop_marker_witness:
  "loop_enabled looping \<and> 1 \<le> loop_count looping \<and> 0 < repeat_interval looping
   \<and> progress_callback quiet_device \<and> never_stops quiet_device
   \<and> fst (execute quiet_device looping [])
   \<and> markers (snd (snd (execute quiet_device looping []))) = [(0, 3, 2), (1, 3, 2)]
   \<and> steps (snd (snd (execute quiet_device looping [])))
       = [Ran 0 0, Ran 0 1, Paused 0, Ran 1 0, Ran 1 1, Paused 1, Ran 2 0, Ran 2 1]"
proof -
  let ?x = "execute quiet_device looping []"
  have cfg: "loop_enabled looping" "1 \<le> loop_count looping" "0 < repeat_interval looping"
    "loop_count looping = 3" "length (actions looping) = 2"
    by (simp_all add: looping_def)
  have env: "progress_callback quiet_device" "never_stops quiet_device"
    by (simp_all add: quiet_device_def never_stops_def)
  have r: "fst ?x"
    by (simp add: engine_eval looping_def click_at_def quiet_device_def upt_0_3)
  have run: "?x = (fst ?x, fst (snd ?x), snd (snd ?x))" by simp
  from inter_loop_marker [OF run cfg(1-3) env r] cfg(4,5)
  have "markers (snd (snd ?x)) = [(0, 3, 2), (1, 3, 2)]"
    and "steps (snd (snd ?x))
       = [Ran 0 0, Ran 0 1, Paused 0, Ran 1 0, Ran 1 1, Paused 1, Ran 2 0, Ran 2 1]"
    by (simp_all add: upt_0_3 upt_0_2)
  with cfg env r show ?thesis by simp
qed

section \<open>Theorems: the response parser\<close>

lemma and_then_Raises:
  "and_then r f = Raises e \<longleftrightarrow> r = Raises e \<or> (\<exists>x. r = Returns x \<and> f x = Raises e)"
  by (cases r) auto

lemma reading_never_raises [simp]:
  "as_num v \<noteq> Raises e" "as_int v \<noteq> Raises e" "as_str v \<noteq> Raises e"
  by (cases v; simp)+

text \<open>Which exceptions leave the construction of one entry, and of a list of entries.\<close>

lemma create_action_body_raises:
  "create_action_body fmt now data = Raises e \<Longrightarrow> e \<in> {KeyError, TypeError, AttributeError}"
proof (cases data)
  case (PDict kvs)
  assume r: "create_action_body fmt now data = Raises e"
  show ?thesis
  proof (cases "dict_get kvs ''type'' (PStr [])")
    case (PStr ty)
    with r PDict show ?thesis
      by (auto simp: and_then_Raises subscript_def Let_def
               split: if_splits option.splits pyval.splits res.splits)
  qed (use r PDict in auto)
qed auto

lemma create_action_from_data_raises:
  "create_action_from_data fmt now data = Raises e \<Longrightarrow> e = AttributeError"
  using create_action_body_raises [of fmt now data]
  by (auto simp: create_action_from_data_def split: res.splits if_splits)

lemma create_actions_raises:
  "create_actions fmt clock k entries = Raises e \<Longrightarrow> e = AttributeError"
proof (induction entries arbitrary: k)
  case Nil
  then show ?case by simp
next
  case (Cons d ds)
  show ?case
  proof (cases "create_action_from_data fmt (clock k) d")
    case (Returns a)
    with Cons.prems have "create_actions fmt clock (Suc k) ds = Raises e"
      by (cases "create_actions fmt clock (Suc k) ds") simp_all
    then show ?thesis by (rule Cons.IH)
  next
    case (Raises e')
    with Cons.prems have "e' = e" by simp
    with Raises show ?thesis using create_action_from_data_raises by blast
  next
    case IllTyped
    with Cons.prems show ?thesis by simp
  qed
qed

lemma structured_stage_span:
  "structured_stage py fmt clock content =
     (if has_span content then
        (case json_loads py (span content) of
           None \<Rightarrow> Raises JSONDecodeError
         | Some (PDict data) \<Rightarrow>
             and_then (iterate (dict_get data ''actions'' (PList []))) (\<lambda>entries.
               create_actions fmt clock 0 entries)
         | Some _ \<Rightarrow> Raises AttributeError)
      else Returns [])"
  by (simp add: structured_stage_def has_span_def span_def Let_def)

lemma iterate_raises: "iterate w = Raises e \<Longrightarrow> e = TypeError"
  by (cases w) auto

lemma structured_stage_raises:
  assumes "structured_stage py fmt clock content = Raises e"
  shows "e \<in> {TypeError, AttributeError}
     \<or> e = JSONDecodeError \<and> has_span content \<and> json_loads py (span content) = None"
proof (cases "has_span content")
  case False
  with assms show ?thesis by (simp add: structured_stage_span)
next
  case True
  show ?thesis
  proof (cases "json_loads py (span content)")
    case None
    with assms True show ?thesis by (simp add: structured_stage_span)
  next
    case (Some v)
    show ?thesis
    proof (cases v)
      case (PDict data)
      with assms True Some
      have "and_then (iterate (dict_get data ''actions'' (PList [])))
              (\<lambda>entries. create_actions fmt clock 0 entries) = Raises e"
        by (simp add: structured_stage_span)
      then show ?thesis
        by (auto simp: and_then_Raises dest: iterate_raises create_actions_raises)
    qed (use assms True Some in \<open>simp_all add: structured_stage_span\<close>)
  qed
qed

lemma structured_stage_decode_error:
  "structured_stage py fmt clock content = Raises JSONDecodeError
     \<longleftrightarrow> has_span content \<and> json_loads py (span content) = None"
proof
  assume "structured_stage py fmt clock content = Raises JSONDecodeError"
  from structured_stage_raises [OF this]
  show "has_span content \<and> json_loads py (span content) = None" by simp
next
  assume "has_span content \<and> json_loads py (span content) = None"
  then show "structured_stage py fmt clock content = Raises JSONDecodeError"
    by (simp add: structured_stage_span)
qed

text \<open>The fallback runs exactly when a brace span exists and the decoder rejects it.\<close>

lemma fallback_runs_iff:
  "parse_action_response py fmt clock content =
     (if has_span content \<and> json_loads py (span content) = None
      then Returns (parse_text_response py fmt clock content)
      else structured_stage py fmt clock content)"
proof (cases "structured_stage py fmt clock content")
  case (Raises e)
  from structured_stage_raises [OF Raises] structured_stage_decode_error [of py fmt clock content]
    Raises
  show ?thesis by (auto simp: parse_action_response_def)
next
  case (Returns as)
  with structured_stage_decode_error [of py fmt clock content]
  show ?thesis by (auto simp: parse_action_response_def)
next
  case IllTyped
  with structured_stage_decode_error [of py fmt clock content]
  show ?thesis by (auto simp: parse_action_response_def)
qed

text \<open>
  With a brace span the decoder rejects, the fallback reads the line
  \<^verbatim>\<open>Type: Hello<enter>\<close> and gives one Type action with delay 0.5.
\<close>

lemma fallback_on_malformed_span:
  assumes "json_loads py ''{oops}'' = None"
  shows "parse_action_response py fmt clock (''{oops}'' @ [CHR 0x0A] @ ''Type: Hello<enter>'')
     = Returns [TypeAction_init fmt (clock 1) ''Hello<enter>'' (1 / 2)]"
proof -
  let ?c = "''{oops}'' @ [CHR 0x0A] @ ''Type: Hello<enter>''"
  have sp: "has_span ?c" "span ?c = ''{oops}''"
    by (simp_all add: has_span_def span_def str_find_def str_rfind_def slice_def)
  have "parse_text_response py fmt clock ?c
     = [TypeAction_init fmt (clock 1) ''Hello<enter>'' (1 / 2)]"
    by (simp add: parse_text_response_def parse_line_def str_strip_def is_space_def
        startswith_def str_lower_def lower_char_def Let_def)
  with sp assms show ?thesis by (simp add: fallback_runs_iff)
qed

text \<open>
  C6. A response that holds the line \<^verbatim>\<open>Type: Hello<enter>\<close> and no brace at all has
  no valid JSON span, yet the fallback does not run on it: the guard
  \<^verbatim>\<open>start_idx != -1 and end_idx > start_idx\<close> fails, nothing raises, and the parser
  returns the empty list instead of the one Type action.
\<close>

theorem fallback_skipped_without_braces:
  "parse_action_response py fmt clock ''Type: Hello<enter>'' = Returns []"
  by (simp add: parse_action_response_def structured_stage_def str_find_def)

text \<open>
  C8. On the response \<^verbatim>\<open>{"actions": 5}\<close> the decoder succeeds, the loop over
  \<^verbatim>\<open>data.get('actions', [])\<close> raises \<^verbatim>\<open>TypeError\<close>, and neither \<^verbatim>\<open>except\<close> clause
  of the parser catches it: the exception reaches the caller.
\<close>

theorem parser_raises_to_caller:
  assumes "json_loads py ''{\"actions\": 5}'' = Some (PDict [(''actions'', PInt 5)])"
  shows "parse_action_response py fmt clock ''{\"actions\": 5}'' = Raises TypeError"
proof -
  have "has_span ''{\"actions\": 5}''" "span ''{\"actions\": 5}'' = ''{\"actions\": 5}''"
    by (simp_all add: has_span_def span_def str_find_def str_rfind_def slice_def)
  with assms show ?thesis
    by (simp add: fallback_runs_iff structured_stage_span dict_get_def)
qed

theorem parser_raises_to_caller_witness:
  "json_loads sample_python ''{\"actions\": 5}'' = Some (PDict [(''actions'', PInt 5)])
   \<and> parse_action_response sample_python plain_fmt (\<lambda>k. 0) ''{\"actions\": 5}''
       = Raises TypeError"
proof -
  have d: "json_loads sample_python ''{\"actions\": 5}'' = Some (PDict [(''actions'', PInt 5)])"
    by (simp add: sample_python_def)
  from parser_raises_to_caller [OF d] d show ?thesis by simp
qed

text \<open>The exceptions that can reach the caller are of these two kinds.\<close>

lemma parser_raises_only:
  "parse_action_response py fmt clock content = Raises e \<Longrightarrow> e \<in> {TypeError, AttributeError}"
  using structured_stage_raises [of py fmt clock content e]
  by (auto simp: fallback_runs_iff split: if_splits)

end
